theory Spec2Isabelle
  imports Main
begin

section \<open>Python strings\<close>

text \<open>
  A Python \<^verbatim>\<open>str\<close> is a sequence of Unicode code points and \<^verbatim>\<open>len\<close> counts code points,
  so a string is modelled as the list of its code points. \<open>lit\<close> turns an ASCII literal
  into such a list; the characters of the source's literals that are not ASCII are given
  by their code points.
\<close>

type_synonym pystr = "nat list"

definition lit :: "string \<Rightarrow> pystr" where
  "lit s = map of_char s"

definition party_popper :: nat where
  "party_popper = 127881"

definition newline :: nat where
  "newline = 10"

text \<open>\<^verbatim>\<open>s.startswith(p)\<close>\<close>

definition startswith :: "pystr \<Rightarrow> pystr \<Rightarrow> bool" where
  "startswith s p = (take (length p) s = p)"

text \<open>\<^verbatim>\<open>needle in hay\<close> on strings: \<open>needle\<close> occurs as a contiguous run.\<close>

fun contains :: "pystr \<Rightarrow> pystr \<Rightarrow> bool" where
  "contains [] needle = (needle = [])"
| "contains (h # hs) needle = (startswith (h # hs) needle \<or> contains hs needle)"

text \<open>\<^verbatim>\<open>s.split(sep)\<close> for a one-character separator: never an empty list.\<close>

fun split :: "nat \<Rightarrow> pystr \<Rightarrow> pystr list" where
  "split sep [] = [[]]"
| "split sep (c # cs) =
     (if c = sep then [] # split sep cs
      else (case split sep cs of
              [] \<Rightarrow> [[c]]
            | l # ls \<Rightarrow> (c # l) # ls))"

text \<open>\<^verbatim>\<open>sep.join(parts)\<close>\<close>

fun join :: "pystr \<Rightarrow> pystr list \<Rightarrow> pystr" where
  "join sep [] = []"
| "join sep [p] = p"
| "join sep (p # q # ps) = p @ sep @ join sep (q # ps)"

text \<open>\<^verbatim>\<open>str(n)\<close> for an integer: decimal digits, with a sign for negative numbers.\<close>

fun str_nat :: "nat \<Rightarrow> pystr" where
  "str_nat n = (if n < 10 then [48 + n] else str_nat (n div 10) @ [48 + n mod 10])"

definition str_int :: "int \<Rightarrow> pystr" where
  "str_int i = (if i < 0 then 45 # str_nat (nat (- i)) else str_nat (nat i))"

section \<open>Guild directory\<close>

text \<open>
  A \<^verbatim>\<open>discord.Member\<close>, with the attributes the source reads. Members compare by id:
  \<^verbatim>\<open>m in xs\<close> and \<^verbatim>\<open>set.add\<close> look at \<open>member_id\<close> only.
\<close>

record member =
  member_id :: int
  display_name :: pystr
  roles :: "int list"
  bot :: bool

definition member_in :: "member \<Rightarrow> member list \<Rightarrow> bool" where
  "member_in m xs = (member_id m \<in> set (map member_id xs))"

definition member_in_set :: "member \<Rightarrow> member set \<Rightarrow> bool" where
  "member_in_set m S = (member_id m \<in> member_id ` S)"

text \<open>\<^verbatim>\<open>s.add(m)\<close>: an element equal to \<open>m\<close> that is already there stays.\<close>

definition set_add :: "member \<Rightarrow> member set \<Rightarrow> member set" where
  "set_add m S = (if member_in_set m S then S else insert m S)"

section \<open>Embeds and the attendance view\<close>

record embed_field =
  field_name :: pystr
  field_value :: pystr
  field_inline :: bool

record embed =
  title :: pystr
  description :: "pystr option"
  embed_fields :: "embed_field list"
  footer :: "pystr option"

datatype item =
    Button (custom_id: string) (label: string) (disabled: bool)
  | Select (options: "(pystr \<times> int) list")

text \<open>
  \<^verbatim>\<open>ExcuseView\<close>. \<open>children\<close> are the items currently attached to the view;
  \<open>select_student\<close> exists only when there are absent members.
\<close>

record excuse_view =
  absent_members :: "member list"
  original_embed :: embed
  excused_members :: "member set"
  session_name :: pystr
  skill_group :: pystr
  season :: int
  children :: "item list"
  select_student :: "item option"

definition excuse_button :: item where
  "excuse_button = Button ''excuse_button'' ''Mark Excused Absence'' False"

definition log_button :: item where
  "log_button = Button ''log_button'' ''Log Attendance'' False"

text \<open>\<^verbatim>\<open>ExcuseView.__init__\<close>\<close>

definition ExcuseView :: "member list \<Rightarrow> embed \<Rightarrow> pystr \<Rightarrow> pystr \<Rightarrow> int \<Rightarrow> excuse_view" where
  "ExcuseView absent emb sname sgroup seas =
     \<lparr> absent_members = absent,
       original_embed = emb,
       excused_members = {},
       session_name = sname,
       skill_group = sgroup,
       season = seas,
       children = (if absent \<noteq> [] then [excuse_button] else []) @ [log_button],
       select_student =
         (if absent \<noteq> []
          then Some (Select (map (\<lambda>m. (display_name m, member_id m)) absent))
          else None) \<rparr>"

text \<open>What a handler tells the invoking user (all replies are ephemeral).\<close>

datatype reply =
    MarkedExcused pystr
  | ErrorMarking
  | MustBeInVoice
  | LoggedOk
  | LoggedFailed
  | ErrorLogging

text \<open>\<^verbatim>\<open>next(m for m in self.absent_members if m.id == selected_id)\<close>; \<open>None\<close> is StopIteration.\<close>

definition next_absent :: "member list \<Rightarrow> int \<Rightarrow> member option" where
  "next_absent absent selected_id = List.find (\<lambda>m. member_id m = selected_id) absent"

text \<open>
  The line loop of \<^verbatim>\<open>student_selected\<close>: the new value of one field. What the loop
  appends to a line is the literal as the source file holds it: a blank, \<open>(Excused\<close>, a
  blank, the three characters U+00E2, U+0153 and U+201C, and \<open>)\<close>.
\<close>

definition excused_suffix :: pystr where
  "excused_suffix = lit '' (Excused '' @ [226, 339, 8220] @ lit '')''"

definition updated_lines :: "pystr \<Rightarrow> pystr list \<Rightarrow> pystr list" where
  "updated_lines name lines =
     map (\<lambda>line. if contains line name then line @ excused_suffix else line) lines"

definition new_value :: "pystr \<Rightarrow> pystr \<Rightarrow> pystr" where
  "new_value name v = join [newline] (updated_lines name (split newline v))"

text \<open>\<^verbatim>\<open>fields.index(f)\<close>: position of the first field equal to \<open>f\<close>; \<open>None\<close> is ValueError.\<close>

fun index_of :: "'a list \<Rightarrow> 'a \<Rightarrow> nat option" where
  "index_of [] y = None"
| "index_of (x # xs) y = (if x = y then Some 0 else map_option Suc (index_of xs y))"

text \<open>
  The loop \<^verbatim>\<open>for field in new_embed.fields\<close>: it walks the fields as they were when the
  loop started (first argument) and rewrites the embed's current fields (second argument).
  \<open>Inl\<close> is the current fields at the moment \<^verbatim>\<open>index\<close> raises, \<open>Inr\<close> the fields when
  the loop has run to its end.
\<close>

fun annotate_fields ::
  "pystr \<Rightarrow> embed_field list \<Rightarrow> embed_field list \<Rightarrow> embed_field list + embed_field list" where
  "annotate_fields name [] cur = Inr cur"
| "annotate_fields name (f # fs) cur =
     (if startswith (field_name f) (lit ''Absent Students'')
      then (case index_of cur f of
              None \<Rightarrow> Inl cur
            | Some i \<Rightarrow>
                annotate_fields name fs
                  (cur[i := f\<lparr>field_value := new_value name (field_value f)\<rparr>]))
      else annotate_fields name fs cur)"

text \<open>
  \<^verbatim>\<open>ExcuseView.student_selected\<close>. The input is the id the select menu delivers. The result is
  the view afterwards, the embed the message is edited to (if it is edited) and the reply.
  Every exception ends in the handler's \<^verbatim>\<open>except\<close> branch; what was mutated before stays.

  \<^verbatim>\<open>Embed.copy()\<close> is a shallow copy: \<^verbatim>\<open>new_embed\<close> shares its fields with
  \<^verbatim>\<open>self.original_embed\<close>, and \<^verbatim>\<open>set_field_at\<close> writes into the shared fields. So every
  field the loop rewrites is rewritten in the view's original embed as well, and the
  next selection starts from it.
\<close>

definition student_selected :: "excuse_view \<Rightarrow> int \<Rightarrow> excuse_view \<times> embed option \<times> reply" where
  "student_selected v selected_id =
     (case select_student v of
        None \<Rightarrow> (v, None, ErrorMarking)
      | Some sel \<Rightarrow>
     (case next_absent (absent_members v) selected_id of
        None \<Rightarrow> (v, None, ErrorMarking)
      | Some selected_member \<Rightarrow>
          (let v1 = v\<lparr>excused_members := set_add selected_member (excused_members v)\<rparr>;
               new_embed = original_embed v1
           in case annotate_fields (display_name selected_member)
                     (embed_fields new_embed) (embed_fields new_embed) of
                Inl fs \<Rightarrow>
                  (v1\<lparr>original_embed := (original_embed v1)\<lparr>embed_fields := fs\<rparr>\<rparr>,
                   None, ErrorMarking)
              | Inr fs \<Rightarrow>
                  (v1\<lparr>original_embed := (original_embed v1)\<lparr>embed_fields := fs\<rparr>,
                      children := remove1 sel (children v1)\<rparr>,
                   Some (new_embed\<lparr>embed_fields := fs\<rparr>),
                   MarkedExcused (display_name selected_member)))))"

text \<open>\<^verbatim>\<open>ExcuseView.show_select_menu\<close>: the select menu is attached to the view.\<close>

definition show_select_menu :: "excuse_view \<Rightarrow> excuse_view" where
  "show_select_menu v =
     (case select_student v of
        None \<Rightarrow> v
      | Some sel \<Rightarrow> v\<lparr>children := children v @ [sel]\<rparr>)"

text \<open>A sequence of selections, each handled by \<open>student_selected\<close> on the view the last one left.\<close>

fun mark_all :: "excuse_view \<Rightarrow> int list \<Rightarrow> excuse_view" where
  "mark_all v [] = v"
| "mark_all v (i # is) = mark_all (fst (student_selected v i)) is"

section \<open>Guild channels and interactions\<close>

text \<open>
  A channel of the guild as \<^verbatim>\<open>guild.get_channel\<close> returns it. \<open>channel_members\<close> is
  \<^verbatim>\<open>channel.members\<close>; \<open>send_ok\<close> tells whether \<^verbatim>\<open>channel.send\<close> succeeds (it raises
  otherwise).
\<close>

record channel =
  channel_id :: int
  channel_name :: pystr
  is_voice :: bool
  channel_members :: "member list"
  send_ok :: bool

record guild =
  guild_name :: pystr
  channels :: "channel list"
  guild_members :: "member list"

definition get_channel :: "guild \<Rightarrow> int \<Rightarrow> channel option" where
  "get_channel g cid = List.find (\<lambda>c. channel_id c = cid) (channels g)"

definition voice_channels :: "guild \<Rightarrow> channel list" where
  "voice_channels g = filter is_voice (channels g)"

text \<open>
  A \<^verbatim>\<open>discord.Interaction\<close>: the invoking member, the id of the voice channel the member is
  connected to (\<open>None\<close> when \<^verbatim>\<open>interaction.user.voice\<close> is \<^verbatim>\<open>None\<close>) and the guild.
\<close>

record interaction =
  user :: member
  user_voice :: "int option"
  guild_of :: guild

section \<open>Ledger store\<close>

text \<open>Times are \<^verbatim>\<open>datetime\<close> values, counted in microseconds.\<close>

type_synonym time = int

record session_row =
  row_id :: nat
  row_session_name :: pystr
  row_user :: pystr
  row_skill_group :: pystr
  row_season :: int
  created_date :: time
  modified_date :: time

record ledger_row =
  session_id :: nat
  student_id :: pystr
  is_present :: bool
  is_excused :: bool
  event_date :: time

record user_row =
  user_name :: pystr
  discord_id :: pystr
  user_type :: string
  user_skill_group :: "string option"
  is_active :: int

record store =
  session_table :: "session_row list"
  ledger_table :: "ledger_row list"
  user_table :: "user_row list"
  next_session_id :: nat

text \<open>
  A MySQL connection with autocommit off: statements change the transaction's working
  copy, \<^verbatim>\<open>commit\<close> makes the working copy durable, \<^verbatim>\<open>rollback\<close> throws it away, and
  what is durable when the connection is closed is what the store holds afterwards.
\<close>

record connection =
  durable :: store
  working :: store

definition connect :: "store \<Rightarrow> connection" where
  "connect st = \<lparr>durable = st, working = st\<rparr>"

definition commit :: "connection \<Rightarrow> connection" where
  "commit c = c\<lparr>durable := working c\<rparr>"

definition rollback :: "connection \<Rightarrow> connection" where
  "rollback c = c\<lparr>working := durable c\<rparr>"

definition close :: "connection \<Rightarrow> store" where
  "close c = durable c"

text \<open>
  Where the database fails during one call, if it does: connecting returns no connection,
  or \<^verbatim>\<open>connection.cursor()\<close>, the \<open>k\<close>-th \<^verbatim>\<open>cursor.execute\<close> of the call (from 0) or
  \<^verbatim>\<open>connection.commit()\<close> raises \<^verbatim>\<open>mysql.connector.Error\<close>.
\<close>

datatype fault = NoFault | ConnectFails | CursorFails | ExecuteFails nat | CommitFails

text \<open>What a call gives its caller: a value, or an exception that leaves the function.\<close>

datatype 'a outcome = Returns 'a | Raises

definition insert_session :: "session_row \<Rightarrow> connection \<Rightarrow> connection" where
  "insert_session r c =
     c\<lparr>working := (working c)\<lparr>session_table := session_table (working c) @ [r],
                                  next_session_id := Suc (next_session_id (working c))\<rparr>\<rparr>"

definition insert_ledger :: "ledger_row \<Rightarrow> connection \<Rightarrow> connection" where
  "insert_ledger r c =
     c\<lparr>working := (working c)\<lparr>ledger_table := ledger_table (working c) @ [r]\<rparr>\<rparr>"

text \<open>
  One \<^verbatim>\<open>for member in ...: cursor.execute(ledger_query, values)\<close> loop. \<open>k\<close> numbers the
  next \<^verbatim>\<open>execute\<close>; \<open>Inl\<close> is the connection at the moment \<^verbatim>\<open>Error\<close> is raised.
\<close>

fun execute_ledger :: "fault \<Rightarrow> nat \<Rightarrow> connection \<Rightarrow> ledger_row list \<Rightarrow> connection + nat \<times> connection" where
  "execute_ledger f k c [] = Inr (k, c)"
| "execute_ledger f k c (r # rs) =
     (if f = ExecuteFails k then Inl c
      else execute_ledger f (Suc k) (insert_ledger r c) rs)"

definition present_row :: "nat \<Rightarrow> time \<Rightarrow> member \<Rightarrow> ledger_row" where
  "present_row sid now m =
     \<lparr>session_id = sid, student_id = str_int (member_id m), is_present = True,
      is_excused = False, event_date = now\<rparr>"

definition absent_row :: "nat \<Rightarrow> time \<Rightarrow> member set \<Rightarrow> member \<Rightarrow> ledger_row" where
  "absent_row sid now excused m =
     \<lparr>session_id = sid, student_id = str_int (member_id m), is_present = False,
      is_excused = member_in_set m excused, event_date = now\<rparr>"

text \<open>
  \<^verbatim>\<open>DatabaseManager.create_attendance_records\<close>. \<open>now\<close> is what \<^verbatim>\<open>datetime.now()\<close> returns.
  When \<^verbatim>\<open>connection.cursor()\<close> raises, the \<^verbatim>\<open>finally\<close> block's \<^verbatim>\<open>cursor.close()\<close> finds no
  \<^verbatim>\<open>cursor\<close> and its exception replaces the \<^verbatim>\<open>return False\<close>.
\<close>

definition create_attendance_records ::
  "fault \<Rightarrow> time \<Rightarrow> store \<Rightarrow> int \<Rightarrow> pystr \<Rightarrow> pystr \<Rightarrow> int \<Rightarrow>
   member list \<Rightarrow> member list \<Rightarrow> member set \<Rightarrow> bool outcome \<times> store" where
  "create_attendance_records f now st user_id sname sgroup seas present absent excused =
     (if f = ConnectFails then (Returns False, st)
      else
        let c = connect st in
        if f = CursorFails then (Raises, close (rollback c))
        else if f = ExecuteFails 0 then (Returns False, close (rollback c))
        else
          let sid = next_session_id (working c);
              c1 = insert_session
                     \<lparr>row_id = sid, row_session_name = sname, row_user = str_int user_id,
                      row_skill_group = sgroup, row_season = seas,
                      created_date = now, modified_date = now\<rparr> c
          in case execute_ledger f 1 c1 (map (present_row sid now) present) of
               Inl c2 \<Rightarrow> (Returns False, close (rollback c2))
             | Inr (k, c2) \<Rightarrow>
                 (case execute_ledger f k c2 (map (absent_row sid now excused) absent) of
                    Inl c3 \<Rightarrow> (Returns False, close (rollback c3))
                  | Inr (k', c3) \<Rightarrow>
                      if f = CommitFails then (Returns False, close (rollback c3))
                      else (Returns True, close (commit c3))))"

text \<open>The loop that disables the log button: the first button with that id, then \<^verbatim>\<open>break\<close>.\<close>

fun disable_log_button :: "item list \<Rightarrow> item list" where
  "disable_log_button [] = []"
| "disable_log_button (Button cid lbl d # its) =
     (if cid = ''log_button'' then Button cid lbl True # its
      else Button cid lbl d # disable_log_button its)"
| "disable_log_button (it # its) = it # disable_log_button its"

text \<open>
  \<^verbatim>\<open>ExcuseView.log_attendance\<close>. When \<^verbatim>\<open>get_channel\<close> finds no channel, reading its
  \<^verbatim>\<open>members\<close> raises and the handler's \<^verbatim>\<open>except\<close> branch answers.
\<close>

definition log_attendance ::
  "fault \<Rightarrow> time \<Rightarrow> excuse_view \<Rightarrow> interaction \<Rightarrow> store \<Rightarrow> (excuse_view \<times> reply) \<times> store" where
  "log_attendance f now v i st =
     (case user_voice i of
        None \<Rightarrow> ((v, MustBeInVoice), st)
      | Some cid \<Rightarrow>
          (case get_channel (guild_of i) cid of
             None \<Rightarrow> ((v, ErrorLogging), st)
           | Some voice_channel \<Rightarrow>
               (let present_members = channel_members voice_channel
                in case create_attendance_records f now st (member_id (user i))
                          (session_name v) (skill_group v) (season v)
                          present_members (absent_members v) (excused_members v) of
                     (Raises, st') \<Rightarrow> ((v, ErrorLogging), st')
                   | (Returns db_success, st') \<Rightarrow>
                       if db_success
                       then ((v\<lparr>children := disable_log_button (children v)\<rparr>, LoggedOk), st')
                       else ((v, LoggedFailed), st'))))"

text \<open>
  The rows a call of \<^verbatim>\<open>create_attendance_records\<close> is meant to add, as one step: the
  session row, a present row for each member of \<open>present\<close> and an absent row for each
  member of \<open>absent\<close>.
\<close>

definition committed_store ::
  "time \<Rightarrow> store \<Rightarrow> int \<Rightarrow> pystr \<Rightarrow> pystr \<Rightarrow> int \<Rightarrow>
   member list \<Rightarrow> member list \<Rightarrow> member set \<Rightarrow> store" where
  "committed_store now st user_id sname sgroup seas present absent excused =
     st\<lparr>session_table := session_table st @
            [\<lparr>row_id = next_session_id st, row_session_name = sname, row_user = str_int user_id,
              row_skill_group = sgroup, row_season = seas,
              created_date = now, modified_date = now\<rparr>],
        ledger_table := ledger_table st
            @ map (present_row (next_session_id st) now) present
            @ map (absent_row (next_session_id st) now excused) absent,
        next_session_id := Suc (next_session_id st)\<rparr>"

section \<open>A small guild used in the examples\<close>

definition alice :: member where
  "alice = \<lparr>member_id = 1, display_name = lit ''Alice'', roles = [1329349873790881853], bot = False\<rparr>"

definition bob :: member where
  "bob = \<lparr>member_id = 2, display_name = lit ''Bob'', roles = [1329349873790881853], bot = False\<rparr>"

definition carl :: member where
  "carl = \<lparr>member_id = 9, display_name = lit ''Carl'', roles = [1329341459329191948], bot = False\<rparr>"

definition guest :: member where
  "guest = \<lparr>member_id = 5, display_name = lit ''Guest'', roles = [], bot = False\<rparr>"

text \<open>The embed \<^verbatim>\<open>take\<close> builds when Alice and Bob are absent.\<close>

definition embed0 :: embed where
  "embed0 =
     \<lparr>title = lit ''Attendance Report - Aim (Season 1)'',
      description = None,
      embed_fields =
        [\<lparr>field_name = lit ''Session Info'', field_value = lit ''**Session:** Aim'',
          field_inline = False\<rparr>,
         \<lparr>field_name = lit ''Absent Students (2)'',
          field_value = lit ''1. Alice'' @ [newline] @ lit ''2. Bob'',
          field_inline = False\<rparr>],
      footer = Some (lit ''Taken by Carl'')\<rparr>"

definition view0 :: excuse_view where
  "view0 = ExcuseView [alice, bob] embed0 (lit ''Aim'') (lit ''Advanced'') 1"

definition attendance_channel0 :: channel where
  "attendance_channel0 =
     \<lparr>channel_id = 1329356087744532531, channel_name = lit ''attendance'', is_voice = False,
      channel_members = [], send_ok = True\<rparr>"

definition lobby :: "member list \<Rightarrow> channel" where
  "lobby ms =
     \<lparr>channel_id = 70, channel_name = lit ''Lobby'', is_voice = True,
      channel_members = ms, send_ok = False\<rparr>"

definition guild0 :: "member list \<Rightarrow> guild" where
  "guild0 ms =
     \<lparr>guild_name = lit ''IRP'', channels = [attendance_channel0, lobby ms],
      guild_members = [alice, bob, carl, guest]\<rparr>"

definition store0 :: store where
  "store0 = \<lparr>session_table = [], ledger_table = [], user_table = [], next_session_id = 1\<rparr>"

text \<open>
  The member \<open>u\<close> presses a button of the view while connected to the lobby, whose
  occupants are \<open>ms\<close>.
\<close>

definition commit_interaction :: "member \<Rightarrow> member list \<Rightarrow> interaction" where
  "commit_interaction u ms = \<lparr>user = u, user_voice = Some 70, guild_of = guild0 ms\<rparr>"

text \<open>The embed with Alice's line annotated.\<close>

definition embed_A :: embed where
  "embed_A =
     embed0\<lparr>embed_fields :=
       [\<lparr>field_name = lit ''Session Info'', field_value = lit ''**Session:** Aim'',
         field_inline = False\<rparr>,
        \<lparr>field_name = lit ''Absent Students (2)'',
         field_value = lit ''1. Alice'' @ excused_suffix @ [newline] @ lit ''2. Bob'',
         field_inline = False\<rparr>]\<rparr>"

text \<open>The snapshot with Alice and Bob absent, after Alice has been marked excused.\<close>

definition view_A :: excuse_view where
  "view_A = fst (student_selected (show_select_menu view0) 1)"

text \<open>
  Carl commits \<open>view_A\<close> at time 1000 with Bob in the lobby by then, and commits
  the view that results once more at time 2000.
\<close>

definition first_commit :: "(excuse_view \<times> reply) \<times> store" where
  "first_commit = log_attendance NoFault 1000 view_A (commit_interaction carl [carl, bob]) store0"

definition second_commit :: "(excuse_view \<times> reply) \<times> store" where
  "second_commit =
     log_attendance NoFault 2000 (fst (fst first_commit)) (commit_interaction carl [carl, bob])
       (snd first_commit)"

text \<open>
  Alice is marked excused in \<open>view0\<close>. In the view that results she is selected once
  more; or else Bob is.
\<close>

definition mark_alice :: "excuse_view \<times> embed option \<times> reply" where
  "mark_alice = student_selected (show_select_menu view0) 1"

definition mark_alice_twice :: "excuse_view \<times> embed option \<times> reply" where
  "mark_alice_twice = student_selected (show_select_menu (fst mark_alice)) 1"

definition mark_alice_then_bob :: "excuse_view \<times> embed option \<times> reply" where
  "mark_alice_then_bob = student_selected (show_select_menu (fst mark_alice)) 2"

section \<open>Reminder scheduler\<close>

definition ALLOWED_ROLE_IDS :: "int list" where
  "ALLOWED_ROLE_IDS = [1329341459329191948]"

definition ATTENDANCE_CHANNEL_ID :: int where
  "ATTENDANCE_CHANNEL_ID = 1329356087744532531"

text \<open>\<^verbatim>\<open>timedelta(minutes=5)\<close>, in microseconds.\<close>

definition five_minutes :: time where
  "five_minutes = 300000000"

text \<open>\<^verbatim>\<open>any(role.id in ALLOWED_ROLE_IDS for role in member.roles)\<close>\<close>

definition has_coach_role :: "member \<Rightarrow> bool" where
  "has_coach_role m = list_ex (\<lambda>r. r \<in> set ALLOWED_ROLE_IDS) (roles m)"

text \<open>A reminder posted to the attendance channel: whom it mentions, the voice channel it names and its timestamp.\<close>

record reminder =
  reminder_to :: int
  reminder_channel :: pystr
  reminder_time :: time

text \<open>
  \<^verbatim>\<open>VoiceReminderCog\<close>: its two attributes, and the reminders it has posted so far, in
  the order they were sent.
\<close>

record cog =
  coach_voice_states :: "int \<rightharpoonup> time"
  reminded_coaches :: "int set"
  outbox :: "reminder list"

text \<open>\<^verbatim>\<open>VoiceReminderCog.__init__\<close>\<close>

definition new_cog :: cog where
  "new_cog = \<lparr>coach_voice_states = Map.empty, reminded_coaches = {}, outbox = []\<rparr>"

text \<open>
  \<^verbatim>\<open>initialize_voice_states\<close>: three nested loops, over the guilds, their voice channels
  and the members of each.
\<close>

definition initialize_members :: "time \<Rightarrow> cog \<Rightarrow> member list \<Rightarrow> cog" where
  "initialize_members now s ms =
     foldl (\<lambda>s m. if has_coach_role m
                   then s\<lparr>coach_voice_states := (coach_voice_states s)(member_id m \<mapsto> now)\<rparr>
                   else s) s ms"

definition initialize_voice_states :: "time \<Rightarrow> guild list \<Rightarrow> cog \<Rightarrow> cog" where
  "initialize_voice_states now guilds s =
     foldl (\<lambda>s g. foldl (\<lambda>s vc. initialize_members now s (channel_members vc)) s (voice_channels g))
       s guilds"

text \<open>
  \<^verbatim>\<open>on_voice_state_update\<close>; \<open>before\<close> and \<open>after\<close> are the ids of the channels in the two
  voice states, \<open>None\<close> for no channel.
\<close>

definition on_voice_state_update :: "time \<Rightarrow> member \<Rightarrow> int option \<Rightarrow> int option \<Rightarrow> cog \<Rightarrow> cog" where
  "on_voice_state_update now m before after s =
     (if \<not> has_coach_role m then s
      else if before = None \<and> after \<noteq> None
        then s\<lparr>coach_voice_states := (coach_voice_states s)(member_id m \<mapsto> now)\<rparr>
      else if before \<noteq> None \<and> after = None
        then s\<lparr>coach_voice_states := (coach_voice_states s)(member_id m := None)\<rparr>
      else s)"

text \<open>
  The loops of \<^verbatim>\<open>check_voice_duration\<close>, innermost first. \<open>Inl\<close> is the cog at the moment
  \<^verbatim>\<open>attendance_channel.send\<close> raises; \<open>Inr\<close> is the cog when the loop has run to its end.
\<close>

fun check_coaches :: "time \<Rightarrow> channel \<Rightarrow> channel \<Rightarrow> cog \<Rightarrow> member list \<Rightarrow> cog + cog" where
  "check_coaches now ac vc s [] = Inr s"
| "check_coaches now ac vc s (coach # cs) =
     (case coach_voice_states s (member_id coach) of
        None \<Rightarrow>
          check_coaches now ac vc
            (s\<lparr>coach_voice_states := (coach_voice_states s)(member_id coach \<mapsto> now)\<rparr>) cs
      | Some join_time \<Rightarrow>
          if now - join_time \<ge> five_minutes
          then (if send_ok ac
                then check_coaches now ac vc
                       (s\<lparr>outbox := outbox s @
                            [\<lparr>reminder_to = member_id coach, reminder_channel = channel_name vc,
                              reminder_time = now\<rparr>],
                          reminded_coaches := insert (member_id coach) (reminded_coaches s)\<rparr>) cs
                else Inl s)
          else check_coaches now ac vc s cs)"

text \<open>The list \<^verbatim>\<open>coaches\<close>, built when the loop reaches the voice channel.\<close>

definition coaches :: "cog \<Rightarrow> channel \<Rightarrow> member list" where
  "coaches s vc =
     filter (\<lambda>m. has_coach_role m \<and> member_id m \<notin> reminded_coaches s) (channel_members vc)"

fun check_channels :: "time \<Rightarrow> channel \<Rightarrow> cog \<Rightarrow> channel list \<Rightarrow> cog + cog" where
  "check_channels now ac s [] = Inr s"
| "check_channels now ac s (vc # vcs) =
     (case check_coaches now ac vc s (coaches s vc) of
        Inl s' \<Rightarrow> Inl s'
      | Inr s' \<Rightarrow> check_channels now ac s' vcs)"

fun check_guilds :: "time \<Rightarrow> cog \<Rightarrow> guild list \<Rightarrow> cog + cog" where
  "check_guilds now s [] = Inr s"
| "check_guilds now s (g # gs) =
     (case get_channel g ATTENDANCE_CHANNEL_ID of
        None \<Rightarrow> check_guilds now s gs
      | Some ac \<Rightarrow>
          (case check_channels now ac s (voice_channels g) of
             Inl s' \<Rightarrow> Inl s'
           | Inr s' \<Rightarrow> check_guilds now s' gs))"

text \<open>
  \<^verbatim>\<open>check_voice_duration\<close>, one tick: an exception ends the tick in the \<^verbatim>\<open>except\<close> branch,
  and the cog stays as it was when the exception was raised.
\<close>

definition check_voice_duration :: "time \<Rightarrow> guild list \<Rightarrow> cog \<Rightarrow> cog" where
  "check_voice_duration now guilds s =
     (case check_guilds now s guilds of Inl s' \<Rightarrow> s' | Inr s' \<Rightarrow> s')"

text \<open>\<^verbatim>\<open>reset_daily_reminders\<close>\<close>

definition reset_daily_reminders :: "time \<Rightarrow> guild list \<Rightarrow> cog \<Rightarrow> cog" where
  "reset_daily_reminders now guilds s =
     initialize_voice_states now guilds
       (s\<lparr>reminded_coaches := {}, coach_voice_states := Map.empty\<rparr>)"

text \<open>
  What happens to the cog, each event with the time \<^verbatim>\<open>datetime.now()\<close> returns in its
  handler and, for the two loops, the guilds as the bot sees them then.
\<close>

datatype event =
    VoiceStateUpdate member "int option" "int option"
  | CheckVoiceDuration "guild list"
  | ResetDailyReminders "guild list"

fun handle :: "cog \<Rightarrow> time \<times> event \<Rightarrow> cog" where
  "handle s (now, VoiceStateUpdate m before after) = on_voice_state_update now m before after s"
| "handle s (now, CheckVoiceDuration guilds) = check_voice_duration now guilds s"
| "handle s (now, ResetDailyReminders guilds) = reset_daily_reminders now guilds s"

definition run :: "cog \<Rightarrow> (time \<times> event) list \<Rightarrow> cog" where
  "run s evs = foldl handle s evs"

text \<open>The reminders posted on the way from the cog \<open>s\<close> to the later cog \<open>s'\<close>.\<close>

definition reminders_since :: "cog \<Rightarrow> cog \<Rightarrow> reminder list" where
  "reminders_since s s' = drop (length (outbox s)) (outbox s')"

text \<open>A voice channel lists each connected member once.\<close>

definition distinct_members :: "guild list \<Rightarrow> bool" where
  "distinct_members guilds =
     list_all (\<lambda>g. list_all (\<lambda>vc. distinct (map member_id (channel_members vc))) (voice_channels g))
       guilds"

text \<open>The events of one epoch: no daily reset among them.\<close>

fun within_epoch :: "(time \<times> event) list \<Rightarrow> bool" where
  "within_epoch [] = True"
| "within_epoch ((now, VoiceStateUpdate m before after) # evs) = within_epoch evs"
| "within_epoch ((now, CheckVoiceDuration guilds) # evs) = (distinct_members guilds \<and> within_epoch evs)"
| "within_epoch ((now, ResetDailyReminders guilds) # evs) = False"

text \<open>No attendance channel of these guilds refuses a message.\<close>

definition sends_succeed :: "guild list \<Rightarrow> bool" where
  "sends_succeed guilds =
     list_all (\<lambda>g. case get_channel g ATTENDANCE_CHANNEL_ID of
                     None \<Rightarrow> True
                   | Some ac \<Rightarrow> send_ok ac) guilds"

text \<open>
  How one tick at time \<open>now\<close> may change the cog: reminders are appended, each to a member
  who was not in the reminded set and whose recorded join time lies five minutes back or
  more; those members join the reminded set; a join time is only ever filled in, with
  \<open>now\<close>, where there was none. With \<open>d\<close>, no member is reminded twice.
\<close>

definition tick_step :: "bool \<Rightarrow> time \<Rightarrow> cog \<Rightarrow> cog \<Rightarrow> bool" where
  "tick_step d now s s' \<longleftrightarrow>
     (\<exists>ext. outbox s' = outbox s @ ext \<and>
        (d \<longrightarrow> distinct (map reminder_to ext)) \<and>
        set (map reminder_to ext) \<inter> reminded_coaches s = {} \<and>
        reminded_coaches s' = reminded_coaches s \<union> set (map reminder_to ext) \<and>
        (\<forall>r \<in> set ext. reminder_time r = now \<and>
           (\<exists>t. coach_voice_states s (reminder_to r) = Some t \<and> five_minutes \<le> now - t))) \<and>
     (\<forall>k. coach_voice_states s' k = coach_voice_states s k \<or>
          coach_voice_states s k = None \<and> coach_voice_states s' k = Some now)"

text \<open>The cog a loop leaves behind, whether it ran to its end or was cut short.\<close>

fun final :: "cog + cog \<Rightarrow> cog" where
  "final (Inl s) = s"
| "final (Inr s) = s"

text \<open>
  Carl joins the lobby at time 0; a tick runs at 5:01 and another at 10:00. Carl holds
  the coach role and the guild has its attendance channel.
\<close>

definition joined :: cog where
  "joined = on_voice_state_update 0 carl None (Some 70) new_cog"

definition two_ticks :: "(time \<times> event) list" where
  "two_ticks =
     [(301000000, CheckVoiceDuration [guild0 [carl]]),
      (600000000, CheckVoiceDuration [guild0 [carl]])]"

definition reminded_once :: cog where
  "reminded_once = check_voice_duration 301000000 [guild0 [carl]] joined"


section \<open>Report generator\<close>

datatype ReportGranularity = DAILY | WEEKLY

text \<open>\<^verbatim>\<open>granularity.value.title()\<close>\<close>

fun granularity_title :: "ReportGranularity \<Rightarrow> pystr" where
  "granularity_title DAILY = lit ''Daily''"
| "granularity_title WEEKLY = lit ''Weekly''"

definition MAX_FIELDS_PER_EMBED :: nat where
  "MAX_FIELDS_PER_EMBED = 25"

definition MAX_FIELD_VALUE_LENGTH :: nat where
  "MAX_FIELD_VALUE_LENGTH = 1024"

text \<open>
  One row of the report query, as the dictionary cursor returns it. The date is year,
  month and day; \<open>absent_data\<close> is \<open>None\<close> for SQL NULL.
\<close>

record report_row =
  session_date :: "nat \<times> nat \<times> nat"
  report_session_name :: pystr
  report_skill_group :: pystr
  total_absences :: int
  excused_absences :: int
  absent_data :: "pystr option"

text \<open>\<^verbatim>\<open>date.strftime('%Y-%m-%d')\<close>; the years of MySQL dates have four digits.\<close>

definition two_digits :: "nat \<Rightarrow> pystr" where
  "two_digits n = (if n < 10 then 48 # str_nat n else str_nat n)"

fun strftime_ymd :: "nat \<times> nat \<times> nat \<Rightarrow> pystr" where
  "strftime_ymd (y, m, d) = str_nat y @ lit ''-'' @ two_digits m @ lit ''-'' @ two_digits d"

text \<open>\<^verbatim>\<open>guild.get_member(id)\<close>\<close>

definition get_member :: "guild \<Rightarrow> int \<Rightarrow> member option" where
  "get_member g i = List.find (\<lambda>m. member_id m = i) (guild_members g)"

text \<open>
  The loop over \<^verbatim>\<open>absent_data.split(',')\<close> in \<^verbatim>\<open>create_session_field_content\<close>.
  \<open>int_of\<close> is Python's \<^verbatim>\<open>int\<close> on a string, \<open>None\<close> where it raises ValueError; the
  result is \<open>None\<close> when \<^verbatim>\<open>int\<close> raises or an item does not split into two parts at \<open>:\<close>.
\<close>

fun absent_students :: "(pystr \<Rightarrow> int option) \<Rightarrow> guild \<Rightarrow> pystr list \<Rightarrow> pystr list option" where
  "absent_students int_of g [] = Some []"
| "absent_students int_of g (student_data # rest) =
     (case split 58 student_data of
        [sid_text, excused_text] \<Rightarrow>
          (case int_of sid_text of
             None \<Rightarrow> None
           | Some sid \<Rightarrow>
               (case get_member g sid of
                  None \<Rightarrow> absent_students int_of g rest
                | Some m \<Rightarrow>
                    (case int_of excused_text of
                       None \<Rightarrow> None
                     | Some e \<Rightarrow>
                         map_option
                           (\<lambda>more. (display_name m @ lit '' '' @
                                     (if e \<noteq> 0 then lit ''(Excused)'' else lit ''(Unexcused)''))
                                    # more)
                           (absent_students int_of g rest))))
      | _ \<Rightarrow> None)"

text \<open>\<^verbatim>\<open>enumerate(xs, start)\<close> is \<open>List.enumerate start xs\<close>. The numbered lines of the field value:\<close>

definition numbered_lines :: "pystr list \<Rightarrow> pystr" where
  "numbered_lines students =
     concat (map (\<lambda>(i, student). str_nat i @ lit ''. '' @ student @ [newline])
               (List.enumerate 1 students))"

text \<open>
  \<^verbatim>\<open>AttendanceReport.create_session_field_content\<close>: field name and field value of one
  session, \<open>None\<close> when it raises.
\<close>

definition create_session_field_content ::
  "(pystr \<Rightarrow> int option) \<Rightarrow> report_row \<Rightarrow> guild \<Rightarrow> (pystr \<times> pystr) option" where
  "create_session_field_content int_of session g =
     (let name = lit ''Session: '' @ report_session_name session @ lit '' on ['' @
                 strftime_ymd (session_date session) @ lit ''] for '' @ report_skill_group session;
          students =
            (case absent_data session of
               None \<Rightarrow> Some []
             | Some d \<Rightarrow> if d = [] then Some [] else absent_students int_of g (split 44 d))
      in case students of
           None \<Rightarrow> None
         | Some students \<Rightarrow>
             Some (name,
                   lit ''**Absent:**'' @ [newline] @
                   (if students \<noteq> [] then numbered_lines students
                    else lit ''Everyone Present! '' @ [party_popper] @ [newline]) @
                   [newline] @ lit ''Total Absences: **'' @ str_int (total_absences session) @
                   lit ''** (Excused: '' @ str_int (excused_absences session) @ lit '')''))"

text \<open>\<^verbatim>\<open>embed.add_field(name=..., value=..., inline=False)\<close>\<close>

definition add_field :: "embed \<Rightarrow> pystr \<Rightarrow> pystr \<Rightarrow> embed" where
  "add_field e n v =
     e\<lparr>embed_fields := embed_fields e @ [\<lparr>field_name = n, field_value = v, field_inline = False\<rparr>]\<rparr>"

text \<open>The length limit on a field value, as the loop applies it.\<close>

definition limit_value :: "pystr \<Rightarrow> pystr" where
  "limit_value v =
     (if length v > MAX_FIELD_VALUE_LENGTH
      then take (MAX_FIELD_VALUE_LENGTH - 3) v @ lit ''...''
      else v)"

definition first_embed :: "int \<Rightarrow> ReportGranularity \<Rightarrow> pystr \<Rightarrow> embed" where
  "first_embed seas granularity generated_at =
     \<lparr>title = lit ''Attendance Report - Season '' @ str_int seas,
      description = Some (granularity_title granularity @ lit '' report generated at '' @ generated_at),
      embed_fields = [], footer = None\<rparr>"

definition continued_embed :: "int \<Rightarrow> embed" where
  "continued_embed seas =
     \<lparr>title = lit ''Attendance Report - Season '' @ str_int seas @ lit '' (Continued)'',
      description = None, embed_fields = [], footer = None\<rparr>"

text \<open>
  The loop \<^verbatim>\<open>for session in data\<close> of \<^verbatim>\<open>create_report_embeds\<close>, on the three variables
  \<^verbatim>\<open>embeds\<close>, \<^verbatim>\<open>current_embed\<close> and \<^verbatim>\<open>field_count\<close>.
\<close>

fun add_sessions ::
  "(pystr \<Rightarrow> int option) \<Rightarrow> guild \<Rightarrow> int \<Rightarrow> embed list \<Rightarrow> embed \<Rightarrow> nat \<Rightarrow> report_row list \<Rightarrow>
   (embed list \<times> embed \<times> nat) option" where
  "add_sessions int_of g seas embeds current_embed field_count [] =
     Some (embeds, current_embed, field_count)"
| "add_sessions int_of g seas embeds current_embed field_count (session # rest) =
     (case create_session_field_content int_of session g of
        None \<Rightarrow> None
      | Some (name, v) \<Rightarrow>
          if field_count \<ge> MAX_FIELDS_PER_EMBED
          then add_sessions int_of g seas (embeds @ [current_embed])
                 (add_field (continued_embed seas) name (limit_value v)) (Suc 0) rest
          else add_sessions int_of g seas embeds
                 (add_field current_embed name (limit_value v)) (Suc field_count) rest)"

text \<open>The loop that sets the footers.\<close>

definition page_footer :: "nat \<Rightarrow> nat \<Rightarrow> pystr" where
  "page_footer i total_pages = lit ''Page '' @ str_nat i @ lit ''/'' @ str_nat total_pages"

definition set_footers :: "embed list \<Rightarrow> embed list" where
  "set_footers embeds =
     map (\<lambda>(i, e). e\<lparr>footer := Some (page_footer i (length embeds))\<rparr>) (List.enumerate 1 embeds)"

definition no_data_embed :: "int \<Rightarrow> ReportGranularity \<Rightarrow> pystr \<Rightarrow> embed" where
  "no_data_embed seas granularity generated_at =
     add_field (first_embed seas granularity generated_at) (lit ''No Data'')
       (lit ''No attendance records found for the specified period.'')"

text \<open>
  \<^verbatim>\<open>AttendanceReport.create_report_embeds\<close>. \<open>generated_at\<close> is the formatted
  \<^verbatim>\<open>datetime.now()\<close>. The result is \<open>None\<close> when building a field raises.
\<close>

definition create_report_embeds ::
  "(pystr \<Rightarrow> int option) \<Rightarrow> pystr \<Rightarrow> report_row list \<Rightarrow> int \<Rightarrow> ReportGranularity \<Rightarrow> guild \<Rightarrow>
   embed list option" where
  "create_report_embeds int_of generated_at data seas granularity g =
     (if data = [] then Some [no_data_embed seas granularity generated_at]
      else
        case add_sessions int_of g seas [] (first_embed seas granularity generated_at) 0 data of
          None \<Rightarrow> None
        | Some (embeds, current_embed, field_count) \<Rightarrow>
            Some (set_footers (if field_count > 0 then embeds @ [current_embed] else embeds)))"

text \<open>The field the loop adds for one session: the field content, with the value limited.\<close>

definition session_field :: "(pystr \<Rightarrow> int option) \<Rightarrow> guild \<Rightarrow> report_row \<Rightarrow> embed_field option" where
  "session_field int_of g session =
     map_option (\<lambda>(name, v). \<lparr>field_name = name, field_value = limit_value v, field_inline = False\<rparr>)
       (create_session_field_content int_of session g)"

text \<open>A page within the limits: at most 25 fields, each value at most 1024 long.\<close>

definition page_ok :: "embed \<Rightarrow> bool" where
  "page_ok e =
     (embed_fields e \<noteq> [] \<and> length (embed_fields e) \<le> MAX_FIELDS_PER_EMBED \<and>
      list_all (\<lambda>f. length (field_value f) \<le> MAX_FIELD_VALUE_LENGTH) (embed_fields e))"

text \<open>
  A reading of decimal digits, standing for \<^verbatim>\<open>int\<close> in the examples: the ids and flags
  that the report query concatenates are written that way.
\<close>

fun digits_value :: "nat \<Rightarrow> pystr \<Rightarrow> nat option" where
  "digits_value acc [] = Some acc"
| "digits_value acc (c # cs) =
     (if 48 \<le> c \<and> c \<le> 57 then digits_value (10 * acc + (c - 48)) cs else None)"

definition decimal :: "pystr \<Rightarrow> int option" where
  "decimal s = (if s = [] then None else map_option int (digits_value 0 s))"

text \<open>A session of the report with Alice excused and Bob not, and the time of the report.\<close>

definition row0 :: report_row where
  "row0 =
     \<lparr>session_date = (2025, 1, 5), report_session_name = lit ''Aim'',
      report_skill_group = lit ''Advanced'', total_absences = 2, excused_absences = 1,
      absent_data = Some (lit ''1:1,2:0'')\<rparr>"

definition report_time :: pystr where
  "report_time = lit ''2025-01-06 10:00:00''"

section \<open>User synchronisation\<close>

definition SKILL_GROUPS :: "(string \<times> int) list" where
  "SKILL_GROUPS = [(''Advanced'', 1329349873790881853), (''Mechanics'', 1329360868714086461)]"

definition USER_ROLE_TYPES :: "(int \<times> string) list" where
  "USER_ROLE_TYPES =
     [(1329341459329191948, ''coach''),
      (1234567890123456, ''admin''),
      (2345678901234567, ''manager''),
      (3456789012345678, ''student''),
      (4567890123456789, ''graduate'')]"

definition ROLE_PRIORITY :: "string list" where
  "ROLE_PRIORITY = [''student'', ''graduate'', ''manager'', ''admin'', ''coach'']"

text \<open>
  The loop over \<^verbatim>\<open>member.roles\<close> in \<^verbatim>\<open>sync_users\<close>: the role types collected and the
  skill group seen last.
\<close>

fun scan_roles :: "string list \<Rightarrow> string option \<Rightarrow> int list \<Rightarrow> string list \<times> string option" where
  "scan_roles member_role_types sg [] = (member_role_types, sg)"
| "scan_roles member_role_types sg (role_id # rest) =
     scan_roles
       (case map_of USER_ROLE_TYPES role_id of
          None \<Rightarrow> member_role_types
        | Some t \<Rightarrow> member_role_types @ [t])
       (if map_of SKILL_GROUPS ''Advanced'' = Some role_id then Some ''Advanced''
        else if map_of SKILL_GROUPS ''Mechanics'' = Some role_id then Some ''Mechanics''
        else sg)
       rest"

text \<open>The sort key \<^verbatim>\<open>ROLE_PRIORITY.index(x) if x in ROLE_PRIORITY else -1\<close>.\<close>

definition priority :: "string \<Rightarrow> int" where
  "priority x = (case index_of ROLE_PRIORITY x of None \<Rightarrow> - 1 | Some i \<Rightarrow> int i)"

text \<open>
  What \<^verbatim>\<open>sync_users\<close> writes for a member: \<open>None\<close> where the loop body ends in
  \<^verbatim>\<open>continue\<close> (a bot, no role type, or a type other than student and coach), otherwise
  user type and skill group. \<^verbatim>\<open>sorted\<close> is stable, as \<open>sort_key\<close> is.
\<close>

definition user_values :: "member \<Rightarrow> (string \<times> string option) option" where
  "user_values m =
     (if bot m then None
      else
        let (member_role_types, sg) = scan_roles [] None (roles m)
        in if member_role_types \<noteq> []
           then (let t = last (sort_key priority member_role_types)
                 in if t \<notin> set [''student'', ''coach''] then None else Some (t, sg))
           else None)"

text \<open>The three statements on the user table.\<close>

definition user_exists :: "connection \<Rightarrow> pystr \<Rightarrow> bool" where
  "user_exists c did = list_ex (\<lambda>r. discord_id r = did) (user_table (working c))"

definition update_user :: "pystr \<Rightarrow> string \<Rightarrow> string option \<Rightarrow> pystr \<Rightarrow> user_row \<Rightarrow> user_row" where
  "update_user name t sg did r =
     (if discord_id r = did
      then r\<lparr>user_name := name, user_type := t, user_skill_group := sg, is_active := 1\<rparr>
      else r)"

definition execute_update :: "pystr \<Rightarrow> string \<Rightarrow> string option \<Rightarrow> pystr \<Rightarrow> connection \<Rightarrow> connection" where
  "execute_update name t sg did c =
     c\<lparr>working := (working c)\<lparr>user_table := map (update_user name t sg did) (user_table (working c))\<rparr>\<rparr>"

definition execute_insert :: "pystr \<Rightarrow> string \<Rightarrow> string option \<Rightarrow> pystr \<Rightarrow> connection \<Rightarrow> connection" where
  "execute_insert name t sg did c =
     c\<lparr>working := (working c)\<lparr>user_table := user_table (working c) @
          [\<lparr>user_name = name, discord_id = did, user_type = t, user_skill_group = sg,
            is_active = 1\<rparr>]\<rparr>\<rparr>"

text \<open>
  The loop \<^verbatim>\<open>for member in members\<close>. \<open>k\<close> numbers the next \<^verbatim>\<open>cursor.execute\<close>; \<open>Inl\<close> is
  the connection at the moment \<^verbatim>\<open>Error\<close> is raised, \<open>Inr\<close> the connection with
  \<^verbatim>\<open>users_added\<close> and \<^verbatim>\<open>users_updated\<close> at the end of the loop.
\<close>

fun sync_members ::
  "fault \<Rightarrow> nat \<Rightarrow> connection \<Rightarrow> nat \<Rightarrow> nat \<Rightarrow> member list \<Rightarrow> connection + (connection \<times> nat \<times> nat)" where
  "sync_members f k c users_added users_updated [] = Inr (c, users_added, users_updated)"
| "sync_members f k c users_added users_updated (m # ms) =
     (case user_values m of
        None \<Rightarrow> sync_members f k c users_added users_updated ms
      | Some (t, sg) \<Rightarrow>
          if f = ExecuteFails k then Inl c
          else if user_exists c (str_int (member_id m))
          then (if f = ExecuteFails (Suc k) then Inl c
                else sync_members f (Suc (Suc k))
                       (execute_update (display_name m) t sg (str_int (member_id m)) c)
                       users_added (Suc users_updated) ms)
          else (if f = ExecuteFails (Suc k) then Inl c
                else sync_members f (Suc (Suc k))
                       (execute_insert (display_name m) t sg (str_int (member_id m)) c)
                       (Suc users_added) users_updated ms))"

text \<open>
  \<^verbatim>\<open>DatabaseManager.sync_users\<close>. An \<^verbatim>\<open>Error\<close> is answered with \<^verbatim>\<open>(False, 0, 0)\<close>; the
  connection is closed without a commit. When \<^verbatim>\<open>connection.cursor()\<close> raises, the
  \<^verbatim>\<open>finally\<close> block raises in turn, as in \<open>create_attendance_records\<close>.
\<close>

definition sync_users :: "fault \<Rightarrow> store \<Rightarrow> member list \<Rightarrow> (bool \<times> nat \<times> nat) outcome \<times> store" where
  "sync_users f st members =
     (if f = ConnectFails then (Returns (False, 0, 0), st)
      else
        let c = connect st in
        if f = CursorFails then (Raises, close c)
        else
          case sync_members f 0 c 0 0 members of
            Inl c' \<Rightarrow> (Returns (False, 0, 0), close c')
          | Inr (c', users_added, users_updated) \<Rightarrow>
              if f = CommitFails then (Returns (False, 0, 0), close c')
              else (Returns (True, users_added, users_updated), close (commit c')))"

text \<open>
  The user table after the loop has run over \<open>ms\<close> without an error, and the number of
  rows it inserted.
\<close>

fun synced_table :: "user_row list \<Rightarrow> member list \<Rightarrow> user_row list" where
  "synced_table T [] = T"
| "synced_table T (m # ms) =
     (case user_values m of
        None \<Rightarrow> synced_table T ms
      | Some (t, sg) \<Rightarrow>
          if list_ex (\<lambda>r. discord_id r = str_int (member_id m)) T
          then synced_table (map (update_user (display_name m) t sg (str_int (member_id m))) T) ms
          else synced_table
                 (T @ [\<lparr>user_name = display_name m, discord_id = str_int (member_id m),
                        user_type = t, user_skill_group = sg, is_active = 1\<rparr>]) ms)"

fun synced_added :: "user_row list \<Rightarrow> member list \<Rightarrow> nat" where
  "synced_added T [] = 0"
| "synced_added T (m # ms) =
     (case user_values m of
        None \<Rightarrow> synced_added T ms
      | Some (t, sg) \<Rightarrow>
          if list_ex (\<lambda>r. discord_id r = str_int (member_id m)) T
          then synced_added (map (update_user (display_name m) t sg (str_int (member_id m))) T) ms
          else Suc (synced_added
                 (T @ [\<lparr>user_name = display_name m, discord_id = str_int (member_id m),
                        user_type = t, user_skill_group = sg, is_active = 1\<rparr>]) ms))"

text \<open>A row as the members of \<open>ms\<close> with its id leave it, the later member last.\<close>

fun settled_row :: "member list \<Rightarrow> user_row \<Rightarrow> user_row" where
  "settled_row [] r = r"
| "settled_row (m # ms) r =
     (case user_values m of
        None \<Rightarrow> settled_row ms r
      | Some (t, sg) \<Rightarrow>
          settled_row ms (update_user (display_name m) t sg (str_int (member_id m)) r))"

text \<open>Dave holds the student role and the Mechanics role.\<close>

definition dave :: member where
  "dave = \<lparr>member_id = 4, display_name = lit ''Dave'',
            roles = [3456789012345678, 1329360868714086461], bot = False\<rparr>"

text \<open>The store after a first synchronisation of Alice, Carl and Dave.\<close>

definition first_sync :: "(bool \<times> nat \<times> nat) outcome \<times> store" where
  "first_sync = sync_users NoFault store0 [alice, carl, dave]"






section \<open>Excuse marking\<close>

lemma next_absent_mem: "next_absent xs i = Some m \<Longrightarrow> m \<in> set xs \<and> member_id m = i"
  unfolding next_absent_def by (induction xs) (auto split: if_splits)

lemma student_selected_absent [simp]:
  "absent_members (fst (student_selected v i)) = absent_members v"
  by (simp add: student_selected_def Let_def split: option.splits sum.splits)

lemma student_selected_excused:
  "excused_members (fst (student_selected v i)) =
     (case select_student v of
        None \<Rightarrow> excused_members v
      | Some sel \<Rightarrow>
          (case next_absent (absent_members v) i of
             None \<Rightarrow> excused_members v
           | Some m \<Rightarrow> set_add m (excused_members v)))"
  by (simp add: student_selected_def Let_def split: option.splits sum.splits)

lemma student_selected_inv:
  "excused_members v \<subseteq> set (absent_members v) \<Longrightarrow>
   excused_members (fst (student_selected v i)) \<subseteq> set (absent_members v)"
  by (auto simp: student_selected_excused set_add_def dest: next_absent_mem split: option.splits)

lemma mark_all_absent [simp]: "absent_members (mark_all v is) = absent_members v"
  by (induction "is" arbitrary: v) simp_all

lemma mark_all_inv:
  "excused_members v \<subseteq> set (absent_members v) \<Longrightarrow>
   excused_members (mark_all v is) \<subseteq> set (absent_members v)"
proof (induction "is" arbitrary: v)
  case Nil
  then show ?case by simp
next
  case (Cons i "is")
  have "excused_members (fst (student_selected v i))
          \<subseteq> set (absent_members (fst (student_selected v i)))"
    using Cons.prems by (simp add: student_selected_inv)
  from Cons.IH [OF this] show ?case by simp
qed

lemma already_excused_noop:
  "member_in_set m (excused_members v) \<Longrightarrow>
   excused_members (fst (student_selected v (member_id m))) = excused_members v"
  by (auto simp: student_selected_excused set_add_def member_in_set_def
      dest!: next_absent_mem split: option.splits)

text \<open>
  C4. Whatever ids are selected, in whatever order and however often, the excused members
  stay among the absent members; and selecting a member who is already excused leaves the
  set of excused members as it was.
\<close>

theorem markExcused_keeps_excused_within_absent:
  "excused_members v \<subseteq> set (absent_members v) \<longrightarrow>
     excused_members (mark_all v ids) \<subseteq> set (absent_members (mark_all v ids)) \<and>
     (\<forall>m. member_in_set m (excused_members v) \<longrightarrow>
        excused_members (fst (student_selected v (member_id m))) = excused_members v)"
  using mark_all_inv [of v ids] already_excused_noop [of _ v] by simp

lemmas example_defs =
  alice_def bob_def carl_def guest_def embed0_def view0_def ExcuseView_def
  attendance_channel0_def lobby_def guild0_def store0_def

lemmas string_defs =
  lit_def newline_def startswith_def excused_suffix_def
  updated_lines_def new_value_def

theorem markExcused_keeps_excused_within_absent_witness:
  "excused_members (view0\<lparr>excused_members := {alice}\<rparr>)
      \<subseteq> set (absent_members (view0\<lparr>excused_members := {alice}\<rparr>)) \<and>
   member_in_set alice (excused_members (view0\<lparr>excused_members := {alice}\<rparr>)) \<and>
   excused_members (mark_all (view0\<lparr>excused_members := {alice}\<rparr>) [1, 2, 2, 7])
      \<subseteq> set (absent_members (mark_all (view0\<lparr>excused_members := {alice}\<rparr>) [1, 2, 2, 7])) \<and>
   excused_members (fst (student_selected (view0\<lparr>excused_members := {alice}\<rparr>) (member_id alice)))
      = excused_members (view0\<lparr>excused_members := {alice}\<rparr>)"
proof -
  have h1: "excused_members (view0\<lparr>excused_members := {alice}\<rparr>)
              \<subseteq> set (absent_members (view0\<lparr>excused_members := {alice}\<rparr>))"
    by (simp add: view0_def ExcuseView_def)
  have h2: "member_in_set alice (excused_members (view0\<lparr>excused_members := {alice}\<rparr>))"
    by (simp add: member_in_set_def)
  from markExcused_keeps_excused_within_absent
         [of "view0\<lparr>excused_members := {alice}\<rparr>" "[1, 2, 2, 7]"] h1 h2
  show ?thesis by blast
qed

section \<open>Committing a snapshot\<close>

lemma execute_ledger_Inl:
  "execute_ledger f k c rs = Inl c' \<Longrightarrow> durable c' = durable c"
  by (induction rs arbitrary: k c) (auto simp: insert_ledger_def split: if_splits)

lemma execute_ledger_Inr:
  "execute_ledger f k c rs = Inr (k', c') \<Longrightarrow>
     durable c' = durable c \<and>
     working c' = (working c)\<lparr>ledger_table := ledger_table (working c) @ rs\<rparr>"
  by (induction rs arbitrary: k c) (auto simp: insert_ledger_def split: if_splits)

lemma execute_ledger_NoFault: "execute_ledger NoFault k c rs \<noteq> Inl c'"
  by (induction rs arbitrary: k c) auto

lemma create_attendance_records_cases:
  "create_attendance_records f now st uid sn sg se present absent excused = (r, st') \<Longrightarrow>
     (r = Returns True \<and> st' = committed_store now st uid sn sg se present absent excused)
     \<or> (r \<noteq> Returns True \<and> st' = st)"
  unfolding create_attendance_records_def Let_def committed_store_def
  by (auto simp: connect_def rollback_def close_def commit_def insert_session_def
        split: if_splits sum.splits prod.splits dest!: execute_ledger_Inl execute_ledger_Inr)

lemma create_attendance_records_NoFault:
  "create_attendance_records NoFault now st uid sn sg se present absent excused =
     (Returns True, committed_store now st uid sn sg se present absent excused)"
proof -
  obtain r st' where
    eq: "create_attendance_records NoFault now st uid sn sg se present absent excused = (r, st')"
    by (cases "create_attendance_records NoFault now st uid sn sg se present absent excused")
  have "r = Returns True"
    using eq unfolding create_attendance_records_def Let_def
    by (auto simp: execute_ledger_NoFault split: sum.splits prod.splits)
  with create_attendance_records_cases [OF eq] eq show ?thesis by simp
qed

text \<open>
  C5. A call of \<open>create_attendance_records\<close> either returns \<open>True\<close> and the store holds the
  session row and every ledger row of the call, or it does not return \<open>True\<close> (it returns
  \<open>False\<close> or raises) and the store is what it was before the call, whichever operation
  failed. Without a failure the call returns \<open>True\<close>.
\<close>

theorem create_attendance_records_atomic:
  "(fst (create_attendance_records f now st uid sn sg se present absent excused) = Returns True \<and>
    snd (create_attendance_records f now st uid sn sg se present absent excused)
      = committed_store now st uid sn sg se present absent excused
    \<or>
    fst (create_attendance_records f now st uid sn sg se present absent excused) \<noteq> Returns True \<and>
    snd (create_attendance_records f now st uid sn sg se present absent excused) = st)
   \<and> (f = NoFault \<longrightarrow>
        fst (create_attendance_records f now st uid sn sg se present absent excused) = Returns True)"
  using create_attendance_records_cases [of f now st uid sn sg se present absent excused]
        create_attendance_records_NoFault [of now st uid sn sg se present absent excused]
  by (cases "create_attendance_records f now st uid sn sg se present absent excused") auto

lemmas store_defs =
  create_attendance_records_def connect_def commit_def rollback_def close_def
  insert_session_def insert_ledger_def present_row_def absent_row_def committed_store_def
  member_in_set_def str_int_def Let_def


theorem create_attendance_records_atomic_witness:
  "fst (create_attendance_records NoFault 1000 store0 9 (lit ''Aim'') (lit ''Advanced'') 1
          [carl, bob] [alice] {alice}) = Returns True \<and>
   ledger_table (snd (create_attendance_records NoFault 1000 store0 9 (lit ''Aim'') (lit ''Advanced'') 1
          [carl, bob] [alice] {alice})) =
     [\<lparr>session_id = 1, student_id = lit ''9'', is_present = True, is_excused = False, event_date = 1000\<rparr>,
      \<lparr>session_id = 1, student_id = lit ''2'', is_present = True, is_excused = False, event_date = 1000\<rparr>,
      \<lparr>session_id = 1, student_id = lit ''1'', is_present = False, is_excused = True, event_date = 1000\<rparr>] \<and>
   fst (create_attendance_records (ExecuteFails 2) 1000 store0 9 (lit ''Aim'') (lit ''Advanced'') 1
          [carl, bob] [alice] {alice}) = Returns False \<and>
   snd (create_attendance_records (ExecuteFails 2) 1000 store0 9 (lit ''Aim'') (lit ''Advanced'') 1
          [carl, bob] [alice] {alice}) = store0"
proof -
  let ?good = "create_attendance_records NoFault 1000 store0 9 (lit ''Aim'') (lit ''Advanced'') 1
          [carl, bob] [alice] {alice}"
  let ?bad = "create_attendance_records (ExecuteFails 2) 1000 store0 9 (lit ''Aim'') (lit ''Advanced'') 1
          [carl, bob] [alice] {alice}"
  note good = create_attendance_records_atomic [of NoFault 1000 store0 9 "lit ''Aim''" "lit ''Advanced''" 1
          "[carl, bob]" "[alice]" "{alice}"]
  note bad = create_attendance_records_atomic [of "ExecuteFails 2" 1000 store0 9 "lit ''Aim''" "lit ''Advanced''" 1
          "[carl, bob]" "[alice]" "{alice}"]
  have ok: "fst ?good = Returns True"
    using good by blast
  have "snd ?good = committed_store 1000 store0 9 (lit ''Aim'') (lit ''Advanced'') 1 [carl, bob] [alice] {alice}"
    using good ok by blast
  then have rows: "ledger_table (snd ?good) =
     [\<lparr>session_id = 1, student_id = lit ''9'', is_present = True, is_excused = False, event_date = 1000\<rparr>,
      \<lparr>session_id = 1, student_id = lit ''2'', is_present = True, is_excused = False, event_date = 1000\<rparr>,
      \<lparr>session_id = 1, student_id = lit ''1'', is_present = False, is_excused = True, event_date = 1000\<rparr>]"
    by (simp add: committed_store_def present_row_def absent_row_def member_in_set_def str_int_def
          example_defs lit_def)
  have failed: "fst ?bad = Returns False"
    by (simp add: store_defs)
  then have "snd ?bad = store0"
    using bad by auto
  with ok rows failed show ?thesis by blast
qed

lemma log_attendance_in_voice:
  "user_voice i = Some cid \<Longrightarrow> get_channel (guild_of i) cid = Some ch \<Longrightarrow>
   log_attendance NoFault now v i st =
     ((v\<lparr>children := disable_log_button (children v)\<rparr>, LoggedOk),
      committed_store now st (member_id (user i)) (session_name v) (skill_group v) (season v)
        (channel_members ch) (absent_members v) (excused_members v))"
  by (simp add: log_attendance_def create_attendance_records_NoFault)

lemma log_attendance_LoggedOk:
  "log_attendance f now v i st = ((v1, LoggedOk), st1) \<Longrightarrow>
   v1 = v\<lparr>children := disable_log_button (children v)\<rparr> \<and>
   length (session_table st1) = Suc (length (session_table st)) \<and>
   length (ledger_table st1) \<ge> length (ledger_table st)"
  unfolding log_attendance_def Let_def
  by (auto simp: committed_store_def split: option.splits prod.splits outcome.splits if_splits
        dest!: create_attendance_records_cases)

lemma disable_log_button_mem:
  "Button ''log_button'' lbl d \<in> set its \<Longrightarrow>
   \<exists>lbl'. Button ''log_button'' lbl' True \<in> set (disable_log_button its)"
  by (induction its rule: disable_log_button.induct) auto

lemma filter_present_rows:
  "filter is_present (map (present_row sid now) xs @ map (absent_row sid now ex) ys)
     = map (present_row sid now) xs"
  by (simp add: present_row_def absent_row_def filter_empty_conv comp_def)

lemma view_A_eq:
  "view_A = view0\<lparr>original_embed := embed_A, excused_members := {alice}\<rparr>"
  by (simp add: view_A_def show_select_menu_def student_selected_def next_absent_def
        set_add_def member_in_set_def Let_def excuse_button_def log_button_def embed_A_def
        example_defs string_defs)

text \<open>
  C2 (as amended). A commit that succeeds writes one present row for each occupant of the
  invoker's voice channel at commit time, then one absent row for each member of the
  snapshot's absent list, excused exactly if the member is among the excused members,
  and no other ledger row.
\<close>

theorem log_attendance_ledger_rows:
  "user_voice i = Some cid \<and> get_channel (guild_of i) cid = Some ch \<longrightarrow>
   snd (fst (log_attendance NoFault now v i st)) = LoggedOk \<and>
   ledger_table (snd (log_attendance NoFault now v i st)) =
     ledger_table st
     @ map (\<lambda>m. \<lparr>session_id = next_session_id st, student_id = str_int (member_id m),
                  is_present = True, is_excused = False, event_date = now\<rparr>) (channel_members ch)
     @ map (\<lambda>m. \<lparr>session_id = next_session_id st, student_id = str_int (member_id m),
                  is_present = False, is_excused = member_in_set m (excused_members v),
                  event_date = now\<rparr>) (absent_members v)"
  by (auto simp: log_attendance_in_voice committed_store_def present_row_def absent_row_def)

lemma commit_interaction_voice:
  "user_voice (commit_interaction u ms) = Some 70 \<and>
   get_channel (guild_of (commit_interaction u ms)) 70 = Some (lobby ms)"
  by (simp add: commit_interaction_def get_channel_def guild0_def attendance_channel0_def lobby_def)

theorem log_attendance_ledger_rows_witness:
  "user_voice (commit_interaction carl [carl, bob]) = Some 70 \<and>
   get_channel (guild_of (commit_interaction carl [carl, bob])) 70 = Some (lobby [carl, bob]) \<and>
   snd (fst (log_attendance NoFault 1000 view_A (commit_interaction carl [carl, bob]) store0)) = LoggedOk \<and>
   ledger_table (snd (log_attendance NoFault 1000 view_A (commit_interaction carl [carl, bob]) store0)) =
     [\<lparr>session_id = 1, student_id = lit ''9'', is_present = True, is_excused = False, event_date = 1000\<rparr>,
      \<lparr>session_id = 1, student_id = lit ''2'', is_present = True, is_excused = False, event_date = 1000\<rparr>,
      \<lparr>session_id = 1, student_id = lit ''1'', is_present = False, is_excused = True, event_date = 1000\<rparr>,
      \<lparr>session_id = 1, student_id = lit ''2'', is_present = False, is_excused = False, event_date = 1000\<rparr>]"
proof -
  note h = commit_interaction_voice [of carl "[carl, bob]"]
  from log_attendance_ledger_rows
         [of "commit_interaction carl [carl, bob]" 70 "lobby [carl, bob]" 1000 view_A store0] h
  show ?thesis
    by (simp add: view_A_eq member_in_set_def str_int_def example_defs lit_def)
qed

text \<open>
  C2, the claim as it stands: Bob was absent when the snapshot was taken and is in the
  carl's voice channel when it is committed. The ledger gets two rows for Bob, one
  present and one absent, and a row for Carl, who is not tracked.
\<close>

theorem commit_writes_two_rows_for_late_joiner:
  "ledger_table (snd first_commit) =
     [\<lparr>session_id = 1, student_id = str_int (member_id carl), is_present = True,
       is_excused = False, event_date = 1000\<rparr>,
      \<lparr>session_id = 1, student_id = str_int (member_id bob), is_present = True,
       is_excused = False, event_date = 1000\<rparr>,
      \<lparr>session_id = 1, student_id = str_int (member_id alice), is_present = False,
       is_excused = True, event_date = 1000\<rparr>,
      \<lparr>session_id = 1, student_id = str_int (member_id bob), is_present = False,
       is_excused = False, event_date = 1000\<rparr>] \<and>
   count_list (map student_id (ledger_table (snd first_commit))) (str_int (member_id bob)) = 2"
  unfolding first_commit_def
  by (simp add: log_attendance_in_voice [OF commit_interaction_voice [THEN conjunct1]
                   commit_interaction_voice [THEN conjunct2]]
        committed_store_def present_row_def absent_row_def view_A_eq member_in_set_def str_int_def
        example_defs lobby_def)





text \<open>
  C1 (as amended). A commit that succeeds disables the view's log button, and that is the
  only guard there is: the handler keeps no record that the snapshot was committed. An
  invocation that reaches it afterwards, from a member in a voice channel and with a
  working store, succeeds like the first and leaves a second session row with its own
  ledger rows.
\<close>

theorem log_attendance_guarded_by_button_only:
  "log_attendance f now v i st = ((v1, LoggedOk), st1) \<and>
   user_voice i2 = Some cid2 \<and> get_channel (guild_of i2) cid2 = Some ch2 \<longrightarrow>
     ((\<exists>lbl d. Button ''log_button'' lbl d \<in> set (children v)) \<longrightarrow>
      (\<exists>lbl. Button ''log_button'' lbl True \<in> set (children v1))) \<and>
     snd (fst (log_attendance NoFault now2 v1 i2 st1)) = LoggedOk \<and>
     length (session_table (snd (log_attendance NoFault now2 v1 i2 st1)))
       = length (session_table st) + 2 \<and>
     ledger_table (snd (log_attendance NoFault now2 v1 i2 st1)) =
       ledger_table st1
       @ map (present_row (next_session_id st1) now2) (channel_members ch2)
       @ map (absent_row (next_session_id st1) now2 (excused_members v)) (absent_members v)"
proof (intro impI, elim conjE)
  assume first: "log_attendance f now v i st = ((v1, LoggedOk), st1)"
     and voice: "user_voice i2 = Some cid2" "get_channel (guild_of i2) cid2 = Some ch2"
  from log_attendance_LoggedOk [OF first]
  have v1: "v1 = v\<lparr>children := disable_log_button (children v)\<rparr>"
    and len: "length (session_table st1) = Suc (length (session_table st))"
    by simp_all
  have button: "(\<exists>lbl d. Button ''log_button'' lbl d \<in> set (children v)) \<longrightarrow>
      (\<exists>lbl. Button ''log_button'' lbl True \<in> set (children v1))"
    using disable_log_button_mem by (auto simp: v1)
  have same: "excused_members v1 = excused_members v" "absent_members v1 = absent_members v"
    by (simp_all add: v1)
  note second = log_attendance_in_voice [OF voice, of now2 v1 st1]
  show "((\<exists>lbl d. Button ''log_button'' lbl d \<in> set (children v)) \<longrightarrow>
      (\<exists>lbl. Button ''log_button'' lbl True \<in> set (children v1))) \<and>
     snd (fst (log_attendance NoFault now2 v1 i2 st1)) = LoggedOk \<and>
     length (session_table (snd (log_attendance NoFault now2 v1 i2 st1)))
       = length (session_table st) + 2 \<and>
     ledger_table (snd (log_attendance NoFault now2 v1 i2 st1)) =
       ledger_table st1
       @ map (present_row (next_session_id st1) now2) (channel_members ch2)
       @ map (absent_row (next_session_id st1) now2 (excused_members v)) (absent_members v)"
    using button len same by (simp add: second committed_store_def)
qed

lemma first_commit_eq:
  "first_commit =
     ((view_A\<lparr>children := disable_log_button (children view_A)\<rparr>, LoggedOk),
      committed_store 1000 store0 9 (lit ''Aim'') (lit ''Advanced'') 1 [carl, bob] [alice, bob] {alice})"
proof -
  have "first_commit =
     ((view_A\<lparr>children := disable_log_button (children view_A)\<rparr>, LoggedOk),
      committed_store 1000 store0 (member_id (user (commit_interaction carl [carl, bob])))
        (session_name view_A) (skill_group view_A) (season view_A)
        (channel_members (lobby [carl, bob])) (absent_members view_A) (excused_members view_A))"
    unfolding first_commit_def
    by (rule log_attendance_in_voice [OF commit_interaction_voice [THEN conjunct1]
                   commit_interaction_voice [THEN conjunct2]])
  then show ?thesis
    by (simp add: view_A_eq commit_interaction_def carl_def view0_def ExcuseView_def lobby_def)
qed

text \<open>
  C1, the claim as it stands: the view that the first commit left, with its log button
  disabled, is committed a second time. The handler answers that it logged the
  attendance, and the store holds two session rows and eight ledger rows.
\<close>

theorem second_commit_is_accepted:
  "snd (fst first_commit) = LoggedOk \<and>
   Button ''log_button'' ''Log Attendance'' True \<in> set (children (fst (fst first_commit))) \<and>
   snd (fst second_commit) = LoggedOk \<and>
   map row_id (session_table (snd second_commit)) = [1, 2] \<and>
   map session_id (ledger_table (snd second_commit)) = [1, 1, 1, 1, 2, 2, 2, 2]"
  unfolding second_commit_def
  by (simp add: first_commit_eq
        log_attendance_in_voice [OF commit_interaction_voice [THEN conjunct1]
                   commit_interaction_voice [THEN conjunct2]]
        committed_store_def present_row_def absent_row_def view_A_eq
        view0_def ExcuseView_def excuse_button_def log_button_def store0_def lobby_def)

theorem log_attendance_guarded_by_button_only_witness:
  "first_commit = ((fst (fst first_commit), LoggedOk), snd first_commit) \<and>
   user_voice (commit_interaction guest [guest]) = Some 70 \<and>
   get_channel (guild_of (commit_interaction guest [guest])) 70 = Some (lobby [guest]) \<and>
   (\<exists>lbl. Button ''log_button'' lbl True \<in> set (children (fst (fst first_commit)))) \<and>
   snd (fst (log_attendance NoFault 2000 (fst (fst first_commit))
               (commit_interaction guest [guest]) (snd first_commit))) = LoggedOk \<and>
   length (session_table (snd (log_attendance NoFault 2000 (fst (fst first_commit))
               (commit_interaction guest [guest]) (snd first_commit)))) = 2"
proof -
  have first: "log_attendance NoFault 1000 view_A (commit_interaction carl [carl, bob]) store0
                 = ((fst (fst first_commit), LoggedOk), snd first_commit)"
    by (simp add: first_commit_eq) (simp add: first_commit_def [symmetric] first_commit_eq)
  have btn: "\<exists>lbl d. Button ''log_button'' lbl d \<in> set (children view_A)"
    by (auto simp: view_A_eq view0_def ExcuseView_def log_button_def excuse_button_def)
  note h = commit_interaction_voice [of guest "[guest]"]
  from log_attendance_guarded_by_button_only
         [of NoFault 1000 view_A "commit_interaction carl [carl, bob]" store0
             "fst (fst first_commit)" "snd first_commit"
             "commit_interaction guest [guest]" 70 "lobby [guest]" 2000]
       first btn h
  show ?thesis
    by (simp add: first_commit_def store0_def)
qed

lemma mark_alice_eq: "fst mark_alice = view_A"
  by (simp add: mark_alice_def view_A_def)

text \<open>
  C6. Alice is marked excused, and the embed shown annotates her line. She is selected a
  second time: the set of excused members is the same, but the handler starts from the
  embed it annotated before, and the embed shown now carries the annotation twice on her
  line. Had Bob been selected instead, both lines would carry it once.
\<close>

theorem reselection_duplicates_annotation:
  "excused_members (fst mark_alice) = {alice} \<and>
   fst (snd mark_alice) =
     Some (embed0\<lparr>embed_fields :=
       [\<lparr>field_name = lit ''Session Info'', field_value = lit ''**Session:** Aim'',
         field_inline = False\<rparr>,
        \<lparr>field_name = lit ''Absent Students (2)'',
         field_value = lit ''1. Alice'' @ excused_suffix @ [newline] @ lit ''2. Bob'',
         field_inline = False\<rparr>]\<rparr>) \<and>
   excused_members (fst mark_alice_twice) = {alice} \<and>
   fst (snd mark_alice_twice) =
     Some (embed0\<lparr>embed_fields :=
       [\<lparr>field_name = lit ''Session Info'', field_value = lit ''**Session:** Aim'',
         field_inline = False\<rparr>,
        \<lparr>field_name = lit ''Absent Students (2)'',
         field_value = lit ''1. Alice'' @ excused_suffix @ excused_suffix @ [newline] @ lit ''2. Bob'',
         field_inline = False\<rparr>]\<rparr>) \<and>
   fst (snd mark_alice_then_bob) =
     Some (embed0\<lparr>embed_fields :=
       [\<lparr>field_name = lit ''Session Info'', field_value = lit ''**Session:** Aim'',
         field_inline = False\<rparr>,
        \<lparr>field_name = lit ''Absent Students (2)'',
         field_value = lit ''1. Alice'' @ excused_suffix @ [newline] @ lit ''2. Bob'' @ excused_suffix,
         field_inline = False\<rparr>]\<rparr>)"
  unfolding mark_alice_twice_def mark_alice_then_bob_def mark_alice_eq
  unfolding view_A_eq
  by (simp add: mark_alice_def show_select_menu_def student_selected_def next_absent_def
        set_add_def member_in_set_def Let_def excuse_button_def log_button_def embed_A_def
        example_defs string_defs)

section \<open>Reminder scheduler\<close>

lemma five_minutes_pos: "0 < five_minutes"
  by (simp add: five_minutes_def)

lemma tick_step_refl: "tick_step d now s s"
  by (simp add: tick_step_def)

lemma tick_step_weaken: "tick_step d now s s' \<Longrightarrow> (d' \<longrightarrow> d) \<Longrightarrow> tick_step d' now s s'"
  unfolding tick_step_def by blast

lemma tick_step_trans:
  assumes a: "tick_step d now s s1" and b: "tick_step d now s1 s2"
  shows "tick_step d now s s2"
proof -
  from a obtain e1 where e1:
    "outbox s1 = outbox s @ e1" "d \<longrightarrow> distinct (map reminder_to e1)"
    "set (map reminder_to e1) \<inter> reminded_coaches s = {}"
    "reminded_coaches s1 = reminded_coaches s \<union> set (map reminder_to e1)"
    "\<forall>r \<in> set e1. reminder_time r = now \<and>
       (\<exists>t. coach_voice_states s (reminder_to r) = Some t \<and> five_minutes \<le> now - t)"
    and t1: "\<forall>k. coach_voice_states s1 k = coach_voice_states s k \<or>
          coach_voice_states s k = None \<and> coach_voice_states s1 k = Some now"
    unfolding tick_step_def by blast
  from b obtain e2 where e2:
    "outbox s2 = outbox s1 @ e2" "d \<longrightarrow> distinct (map reminder_to e2)"
    "set (map reminder_to e2) \<inter> reminded_coaches s1 = {}"
    "reminded_coaches s2 = reminded_coaches s1 \<union> set (map reminder_to e2)"
    "\<forall>r \<in> set e2. reminder_time r = now \<and>
       (\<exists>t. coach_voice_states s1 (reminder_to r) = Some t \<and> five_minutes \<le> now - t)"
    and t2: "\<forall>k. coach_voice_states s2 k = coach_voice_states s1 k \<or>
          coach_voice_states s1 k = None \<and> coach_voice_states s2 k = Some now"
    unfolding tick_step_def by blast
  have c1: "outbox s2 = outbox s @ (e1 @ e2)"
    using e1(1) e2(1) by simp
  have c2: "d \<longrightarrow> distinct (map reminder_to (e1 @ e2))"
    using e1(2,4) e2(2,3) by auto
  have c3: "set (map reminder_to (e1 @ e2)) \<inter> reminded_coaches s = {}"
    using e1(3,4) e2(3) by auto
  have c4: "reminded_coaches s2 = reminded_coaches s \<union> set (map reminder_to (e1 @ e2))"
    using e1(4) e2(4) by auto
  have c5: "\<forall>r \<in> set (e1 @ e2). reminder_time r = now \<and>
       (\<exists>t. coach_voice_states s (reminder_to r) = Some t \<and> five_minutes \<le> now - t)"
  proof
    fix r assume "r \<in> set (e1 @ e2)"
    then consider "r \<in> set e1" | "r \<in> set e2" by auto
    then show "reminder_time r = now \<and>
       (\<exists>t. coach_voice_states s (reminder_to r) = Some t \<and> five_minutes \<le> now - t)"
    proof cases
      case 1
      with e1(5) show ?thesis by blast
    next
      case 2
      with e2(5) obtain t where t: "reminder_time r = now"
        "coach_voice_states s1 (reminder_to r) = Some t" "five_minutes \<le> now - t"
        by blast
      from t1 have "coach_voice_states s1 (reminder_to r) = coach_voice_states s (reminder_to r) \<or>
          coach_voice_states s1 (reminder_to r) = Some now" by blast
      with t five_minutes_pos have "coach_voice_states s (reminder_to r) = Some t"
        by auto
      with t show ?thesis by blast
    qed
  qed
  have c6: "\<forall>k. coach_voice_states s2 k = coach_voice_states s k \<or>
          coach_voice_states s k = None \<and> coach_voice_states s2 k = Some now"
  proof
    fix k
    from t1 t2 show "coach_voice_states s2 k = coach_voice_states s k \<or>
          coach_voice_states s k = None \<and> coach_voice_states s2 k = Some now"
      by (metis option.distinct(1))
  qed
  show ?thesis
    unfolding tick_step_def using c1 c2 c3 c4 c5 c6 by blast
qed



lemma check_coaches_ext:
  "\<exists>ext. outbox (final (check_coaches now ac vc s cs)) = outbox s @ ext \<and>
     set (map reminder_to ext) \<subseteq> member_id ` set cs \<and>
     (distinct (map member_id cs) \<longrightarrow> distinct (map reminder_to ext)) \<and>
     reminded_coaches (final (check_coaches now ac vc s cs))
        = reminded_coaches s \<union> set (map reminder_to ext) \<and>
     (\<forall>r \<in> set ext. reminder_time r = now \<and>
        (\<exists>t. coach_voice_states s (reminder_to r) = Some t \<and> five_minutes \<le> now - t)) \<and>
     (\<forall>k. coach_voice_states (final (check_coaches now ac vc s cs)) k = coach_voice_states s k \<or>
          coach_voice_states s k = None \<and>
          coach_voice_states (final (check_coaches now ac vc s cs)) k = Some now)"
proof (induction cs arbitrary: s)
  case Nil
  show ?case by simp
next
  case (Cons c cs)
  show ?case
  proof (cases "coach_voice_states s (member_id c)")
    case None
    let ?s1 = "s\<lparr>coach_voice_states := (coach_voice_states s)(member_id c \<mapsto> now)\<rparr>"
    have eq: "check_coaches now ac vc s (c # cs) = check_coaches now ac vc ?s1 cs"
      using None by simp
    from Cons.IH [of ?s1] obtain ext where ext:
      "outbox (final (check_coaches now ac vc ?s1 cs)) = outbox ?s1 @ ext"
      "set (map reminder_to ext) \<subseteq> member_id ` set cs"
      "distinct (map member_id cs) \<longrightarrow> distinct (map reminder_to ext)"
      "reminded_coaches (final (check_coaches now ac vc ?s1 cs))
         = reminded_coaches ?s1 \<union> set (map reminder_to ext)"
      "\<forall>r \<in> set ext. reminder_time r = now \<and>
        (\<exists>t. coach_voice_states ?s1 (reminder_to r) = Some t \<and> five_minutes \<le> now - t)"
      "\<forall>k. coach_voice_states (final (check_coaches now ac vc ?s1 cs)) k = coach_voice_states ?s1 k \<or>
          coach_voice_states ?s1 k = None \<and>
          coach_voice_states (final (check_coaches now ac vc ?s1 cs)) k = Some now"
      by blast
    have five: "\<forall>r \<in> set ext. reminder_time r = now \<and>
        (\<exists>t. coach_voice_states s (reminder_to r) = Some t \<and> five_minutes \<le> now - t)"
    proof
      fix r assume "r \<in> set ext"
      with ext(5) obtain t where t: "reminder_time r = now"
        "coach_voice_states ?s1 (reminder_to r) = Some t" "five_minutes \<le> now - t" by blast
      have "reminder_to r \<noteq> member_id c"
        using t five_minutes_pos by auto
      with t show "reminder_time r = now \<and>
        (\<exists>t. coach_voice_states s (reminder_to r) = Some t \<and> five_minutes \<le> now - t)"
        by auto
    qed
    have timers: "\<forall>k. coach_voice_states (final (check_coaches now ac vc ?s1 cs)) k = coach_voice_states s k \<or>
          coach_voice_states s k = None \<and>
          coach_voice_states (final (check_coaches now ac vc ?s1 cs)) k = Some now"
    proof
      fix k
      from ext(6) have "coach_voice_states (final (check_coaches now ac vc ?s1 cs)) k = coach_voice_states ?s1 k \<or>
          coach_voice_states ?s1 k = None \<and>
          coach_voice_states (final (check_coaches now ac vc ?s1 cs)) k = Some now" by blast
      then show "coach_voice_states (final (check_coaches now ac vc ?s1 cs)) k = coach_voice_states s k \<or>
          coach_voice_states s k = None \<and>
          coach_voice_states (final (check_coaches now ac vc ?s1 cs)) k = Some now"
        using None by (cases "k = member_id c") auto
    qed
    show ?thesis
      unfolding eq using ext(1-4) five timers
      by (intro exI [of _ ext]) auto
  next
    case (Some join_time)
    show ?thesis
    proof (cases "now - join_time \<ge> five_minutes")
      case False
      then have eq: "check_coaches now ac vc s (c # cs) = check_coaches now ac vc s cs"
        using Some by simp
      from Cons.IH [of s] show ?thesis
        unfolding eq by (elim exE conjE, intro exI) auto
    next
      case due: True
      show ?thesis
      proof (cases "send_ok ac")
        case False
        then have "check_coaches now ac vc s (c # cs) = Inl s"
          using Some due by simp
        then show ?thesis by simp
      next
        case True
        let ?r = "\<lparr>reminder_to = member_id c, reminder_channel = channel_name vc,
                    reminder_time = now\<rparr>"
        let ?s1 = "s\<lparr>outbox := outbox s @ [?r],
                     reminded_coaches := insert (member_id c) (reminded_coaches s)\<rparr>"
        have eq: "check_coaches now ac vc s (c # cs) = check_coaches now ac vc ?s1 cs"
          using Some due True by simp
        from Cons.IH [of ?s1] obtain ext where ext:
          "outbox (final (check_coaches now ac vc ?s1 cs)) = outbox ?s1 @ ext"
          "set (map reminder_to ext) \<subseteq> member_id ` set cs"
          "distinct (map member_id cs) \<longrightarrow> distinct (map reminder_to ext)"
          "reminded_coaches (final (check_coaches now ac vc ?s1 cs))
             = reminded_coaches ?s1 \<union> set (map reminder_to ext)"
          "\<forall>r \<in> set ext. reminder_time r = now \<and>
            (\<exists>t. coach_voice_states ?s1 (reminder_to r) = Some t \<and> five_minutes \<le> now - t)"
          "\<forall>k. coach_voice_states (final (check_coaches now ac vc ?s1 cs)) k = coach_voice_states ?s1 k \<or>
              coach_voice_states ?s1 k = None \<and>
              coach_voice_states (final (check_coaches now ac vc ?s1 cs)) k = Some now"
          by blast
        have d: "distinct (map member_id (c # cs)) \<longrightarrow> distinct (map reminder_to (?r # ext))"
          using ext(2,3) by auto
        have five: "\<forall>r \<in> set (?r # ext). reminder_time r = now \<and>
            (\<exists>t. coach_voice_states s (reminder_to r) = Some t \<and> five_minutes \<le> now - t)"
          using ext(5) Some due by auto
        show ?thesis
          unfolding eq using ext(1,2,4,6) d five
          by (intro exI [of _ "?r # ext"]) auto
      qed
    qed
  qed
qed


lemma check_coaches_tick:
  assumes "member_id ` set cs \<inter> reminded_coaches s = {}"
  shows "tick_step (distinct (map member_id cs)) now s (final (check_coaches now ac vc s cs))"
proof -
  from check_coaches_ext [of now ac vc s cs] obtain ext where ext:
    "outbox (final (check_coaches now ac vc s cs)) = outbox s @ ext"
    "set (map reminder_to ext) \<subseteq> member_id ` set cs"
    "distinct (map member_id cs) \<longrightarrow> distinct (map reminder_to ext)"
    "reminded_coaches (final (check_coaches now ac vc s cs))
        = reminded_coaches s \<union> set (map reminder_to ext)"
    "\<forall>r \<in> set ext. reminder_time r = now \<and>
        (\<exists>t. coach_voice_states s (reminder_to r) = Some t \<and> five_minutes \<le> now - t)"
    "\<forall>k. coach_voice_states (final (check_coaches now ac vc s cs)) k = coach_voice_states s k \<or>
          coach_voice_states s k = None \<and>
          coach_voice_states (final (check_coaches now ac vc s cs)) k = Some now"
    by blast
  have "set (map reminder_to ext) \<inter> reminded_coaches s = {}"
    using ext(2) assms by blast
  with ext show ?thesis
    unfolding tick_step_def by blast
qed

lemma coaches_tick:
  "tick_step (distinct (map member_id (channel_members vc))) now s
     (final (check_coaches now ac vc s (coaches s vc)))"
proof -
  have "member_id ` set (coaches s vc) \<inter> reminded_coaches s = {}"
    by (auto simp: coaches_def)
  from check_coaches_tick [OF this, of now ac vc]
  show ?thesis
    by (rule tick_step_weaken) (simp add: coaches_def distinct_map_filter)
qed

lemma check_channels_tick:
  "tick_step (list_all (\<lambda>vc. distinct (map member_id (channel_members vc))) vcs) now s
     (final (check_channels now ac s vcs))"
proof (induction vcs arbitrary: s)
  case Nil
  show ?case by (simp add: tick_step_refl)
next
  case (Cons vc vcs)
  let ?d = "list_all (\<lambda>vc. distinct (map member_id (channel_members vc))) (vc # vcs)"
  have head: "tick_step ?d now s (final (check_coaches now ac vc s (coaches s vc)))"
    by (rule tick_step_weaken [OF coaches_tick]) simp
  show ?case
  proof (cases "check_coaches now ac vc s (coaches s vc)")
    case (Inl s')
    with head show ?thesis by simp
  next
    case (Inr s')
    have rest: "tick_step ?d now s' (final (check_channels now ac s' vcs))"
      by (rule tick_step_weaken [OF Cons.IH]) simp
    from head Inr have "tick_step ?d now s s'" by simp
    from tick_step_trans [OF this rest] Inr show ?thesis by simp
  qed
qed

lemma check_guilds_tick:
  "tick_step (distinct_members guilds) now s (final (check_guilds now s guilds))"
proof (induction guilds arbitrary: s)
  case Nil
  show ?case by (simp add: tick_step_refl)
next
  case (Cons g gs)
  have tail: "\<And>s'. tick_step (distinct_members (g # gs)) now s' (final (check_guilds now s' gs))"
    by (rule tick_step_weaken [OF Cons.IH]) (simp add: distinct_members_def)
  show ?case
  proof (cases "get_channel g ATTENDANCE_CHANNEL_ID")
    case None
    with tail [of s] show ?thesis by simp
  next
    case (Some ac)
    have head: "tick_step (distinct_members (g # gs)) now s
                  (final (check_channels now ac s (voice_channels g)))"
      by (rule tick_step_weaken [OF check_channels_tick]) (simp add: distinct_members_def)
    show ?thesis
    proof (cases "check_channels now ac s (voice_channels g)")
      case (Inl s')
      with head Some show ?thesis by simp
    next
      case (Inr s')
      from head Inr have "tick_step (distinct_members (g # gs)) now s s'" by simp
      from tick_step_trans [OF this tail [of s']] Inr Some show ?thesis by simp
    qed
  qed
qed

lemma check_voice_duration_final:
  "check_voice_duration now guilds s = final (check_guilds now s guilds)"
  by (cases "check_guilds now s guilds") (simp_all add: check_voice_duration_def)

lemma check_voice_duration_tick:
  "tick_step (distinct_members guilds) now s (check_voice_duration now guilds s)"
  by (simp add: check_voice_duration_final check_guilds_tick)

lemma tick_step_reminders:
  assumes "tick_step d now s s'"
  shows "outbox s' = outbox s @ reminders_since s s'"
    and "d \<longrightarrow> distinct (map reminder_to (reminders_since s s'))"
    and "set (map reminder_to (reminders_since s s')) \<inter> reminded_coaches s = {}"
    and "reminded_coaches s' = reminded_coaches s \<union> set (map reminder_to (reminders_since s s'))"
    and "\<forall>r \<in> set (reminders_since s s'). reminder_time r = now \<and>
           (\<exists>t. coach_voice_states s (reminder_to r) = Some t \<and> five_minutes \<le> now - t)"
proof -
  from assms obtain ext where ext:
    "outbox s' = outbox s @ ext" "d \<longrightarrow> distinct (map reminder_to ext)"
    "set (map reminder_to ext) \<inter> reminded_coaches s = {}"
    "reminded_coaches s' = reminded_coaches s \<union> set (map reminder_to ext)"
    "\<forall>r \<in> set ext. reminder_time r = now \<and>
       (\<exists>t. coach_voice_states s (reminder_to r) = Some t \<and> five_minutes \<le> now - t)"
    unfolding tick_step_def by blast
  have eq: "reminders_since s s' = ext"
    by (simp add: reminders_since_def ext(1))
  show "outbox s' = outbox s @ reminders_since s s'"
    and "d \<longrightarrow> distinct (map reminder_to (reminders_since s s'))"
    and "set (map reminder_to (reminders_since s s')) \<inter> reminded_coaches s = {}"
    and "reminded_coaches s' = reminded_coaches s \<union> set (map reminder_to (reminders_since s s'))"
    and "\<forall>r \<in> set (reminders_since s s'). reminder_time r = now \<and>
           (\<exists>t. coach_voice_states s (reminder_to r) = Some t \<and> five_minutes \<le> now - t)"
    unfolding eq using ext by blast+
qed

lemma initialize_members_keeps [simp]:
  "reminded_coaches (initialize_members now s ms) = reminded_coaches s"
  "outbox (initialize_members now s ms) = outbox s"
  unfolding initialize_members_def
  by (induction ms arbitrary: s) simp_all

lemma initialize_voice_states_keeps [simp]:
  "reminded_coaches (initialize_voice_states now guilds s) = reminded_coaches s"
  "outbox (initialize_voice_states now guilds s) = outbox s"
proof -
  have inner: "\<And>s vcs. reminded_coaches (foldl (\<lambda>s vc. initialize_members now s (channel_members vc)) s vcs)
                  = reminded_coaches s \<and>
                outbox (foldl (\<lambda>s vc. initialize_members now s (channel_members vc)) s vcs) = outbox s"
    subgoal for s vcs by (induction vcs arbitrary: s) simp_all
    done
  have "reminded_coaches (initialize_voice_states now guilds s) = reminded_coaches s \<and>
        outbox (initialize_voice_states now guilds s) = outbox s"
    unfolding initialize_voice_states_def
    by (induction guilds arbitrary: s) (simp_all add: inner)
  then show "reminded_coaches (initialize_voice_states now guilds s) = reminded_coaches s"
    and "outbox (initialize_voice_states now guilds s) = outbox s"
    by simp_all
qed

lemma reset_clears_reminded:
  "reminded_coaches (reset_daily_reminders now guilds s) = {}"
  by (simp add: reset_daily_reminders_def)

lemma on_voice_state_update_keeps [simp]:
  "reminded_coaches (on_voice_state_update now m before after s) = reminded_coaches s"
  "outbox (on_voice_state_update now m before after s) = outbox s"
  by (simp_all add: on_voice_state_update_def)

lemma run_within_epoch:
  "within_epoch evs \<Longrightarrow>
   \<exists>ext. outbox (run s evs) = outbox s @ ext \<and>
     distinct (map reminder_to ext) \<and>
     set (map reminder_to ext) \<inter> reminded_coaches s = {} \<and>
     reminded_coaches (run s evs) = reminded_coaches s \<union> set (map reminder_to ext)"
proof (induction evs arbitrary: s rule: within_epoch.induct)
  case 1
  show ?case by (simp add: run_def)
next
  case (2 now m before after evs)
  let ?s1 = "on_voice_state_update now m before after s"
  from 2 have "within_epoch evs" by simp
  from "2.IH" [OF this, of ?s1] show ?case
    by (simp add: run_def)
next
  case (3 now guilds evs)
  let ?s1 = "check_voice_duration now guilds s"
  from 3 have d: "distinct_members guilds" and w: "within_epoch evs" by simp_all
  note t = tick_step_reminders [OF check_voice_duration_tick [of guilds now s]]
  from "3.IH" [OF w, of ?s1] obtain e2 where e2:
    "outbox (run ?s1 evs) = outbox ?s1 @ e2" "distinct (map reminder_to e2)"
    "set (map reminder_to e2) \<inter> reminded_coaches ?s1 = {}"
    "reminded_coaches (run ?s1 evs) = reminded_coaches ?s1 \<union> set (map reminder_to e2)"
    by blast
  let ?e1 = "reminders_since s ?s1"
  have run: "run s ((now, CheckVoiceDuration guilds) # evs) = run ?s1 evs"
    by (simp add: run_def)
  have c1: "outbox (run ?s1 evs) = outbox s @ (?e1 @ e2)"
    using e2(1) t(1) by simp
  have c2: "distinct (map reminder_to (?e1 @ e2))"
    using t(2,4) d e2(2,3) by auto
  have c3: "set (map reminder_to (?e1 @ e2)) \<inter> reminded_coaches s = {}"
    using t(3,4) e2(3) by auto
  have c4: "reminded_coaches (run ?s1 evs) = reminded_coaches s \<union> set (map reminder_to (?e1 @ e2))"
    using t(4) e2(4) by auto
  show ?case
    unfolding run using c1 c2 c3 c4 by blast
next
  case (4 now guilds evs)
  then show ?case by simp
qed

lemma count_list_distinct: "distinct xs \<Longrightarrow> count_list xs x \<le> 1"
  by (induction xs) (auto simp: count_list_0_iff)

lemma run_reminders:
  assumes "within_epoch evs"
  shows "distinct (map reminder_to (reminders_since s (run s evs)))"
    and "set (map reminder_to (reminders_since s (run s evs))) \<inter> reminded_coaches s = {}"
proof -
  from run_within_epoch [OF assms, of s] obtain ext where ext:
    "outbox (run s evs) = outbox s @ ext" "distinct (map reminder_to ext)"
    "set (map reminder_to ext) \<inter> reminded_coaches s = {}"
    by blast
  have eq: "reminders_since s (run s evs) = ext"
    by (simp add: reminders_since_def ext(1))
  show "distinct (map reminder_to (reminders_since s (run s evs)))"
    and "set (map reminder_to (reminders_since s (run s evs))) \<inter> reminded_coaches s = {}"
    unfolding eq using ext by blast+
qed

text \<open>
  C7. Over the events of one epoch (voice state updates and ticks, no daily reset), a
  member is reminded at most once, and a member who is in the reminded set when the
  events start is not reminded at all. Every reminder a tick sends goes to a member
  whose recorded join time, as it was when the tick started, is at least five minutes
  before the tick's time, and that member is in the reminded set when the tick ends.
  The daily reset empties the reminded set.
\<close>

theorem reminder_once_per_epoch_after_five_minutes:
  "(within_epoch evs \<longrightarrow>
      count_list (map reminder_to (reminders_since s (run s evs))) m \<le> 1 \<and>
      (m \<in> reminded_coaches s \<longrightarrow> m \<notin> set (map reminder_to (reminders_since s (run s evs))))) \<and>
   (\<forall>r \<in> set (reminders_since s (check_voice_duration now guilds s)).
      reminder_time r = now \<and>
      (\<exists>t. coach_voice_states s (reminder_to r) = Some t \<and> five_minutes \<le> now - t) \<and>
      reminder_to r \<in> reminded_coaches (check_voice_duration now guilds s)) \<and>
   reminded_coaches (reset_daily_reminders now guilds s) = {}"
proof (intro conjI impI ballI)
  assume w: "within_epoch evs"
  from run_reminders(1) [OF w, of s]
  show "count_list (map reminder_to (reminders_since s (run s evs))) m \<le> 1"
    by (rule count_list_distinct)
next
  assume "within_epoch evs" and "m \<in> reminded_coaches s"
  with run_reminders(2) [of evs s]
  show "m \<notin> set (map reminder_to (reminders_since s (run s evs)))" by blast
next
  note t = tick_step_reminders [OF check_voice_duration_tick [of guilds now s]]
  fix r assume r: "r \<in> set (reminders_since s (check_voice_duration now guilds s))"
  with t(5) show "reminder_time r = now" by blast
  from r t(5) show "\<exists>t. coach_voice_states s (reminder_to r) = Some t \<and> five_minutes \<le> now - t"
    by blast
  from r t(4) show "reminder_to r \<in> reminded_coaches (check_voice_duration now guilds s)"
    by auto
next
  show "reminded_coaches (reset_daily_reminders now guilds s) = {}"
    by (rule reset_clears_reminded)
qed

lemmas scheduler_defs =
  check_voice_duration_def get_channel_def voice_channels_def coaches_def has_coach_role_def
  ALLOWED_ROLE_IDS_def ATTENDANCE_CHANNEL_ID_def five_minutes_def on_voice_state_update_def
  new_cog_def reminders_since_def run_def distinct_members_def sends_succeed_def

lemma joined_simps:
  "coach_voice_states joined 9 = Some 0" "reminded_coaches joined = {}" "outbox joined = []"
  by (simp_all add: joined_def scheduler_defs carl_def)

lemma reminded_once_simps:
  "coach_voice_states reminded_once 9 = Some 0"
  "reminded_coaches reminded_once = {9}"
  "outbox reminded_once =
     [\<lparr>reminder_to = 9, reminder_channel = lit ''Lobby'', reminder_time = 301000000\<rparr>]"
  by (simp_all add: reminded_once_def joined_def scheduler_defs example_defs)

theorem reminder_once_per_epoch_after_five_minutes_witness:
  "within_epoch two_ticks \<and>
   9 \<in> reminded_coaches reminded_once \<and>
   reminders_since joined (check_voice_duration 301000000 [guild0 [carl]] joined) =
     [\<lparr>reminder_to = 9, reminder_channel = lit ''Lobby'', reminder_time = 301000000\<rparr>] \<and>
   coach_voice_states joined 9 = Some 0 \<and>
   five_minutes \<le> 301000000 - 0 \<and>
   count_list (map reminder_to (reminders_since joined (run joined two_ticks))) 9 \<le> 1 \<and>
   9 \<notin> set (map reminder_to (reminders_since reminded_once (run reminded_once two_ticks)))"
proof -
  have w: "within_epoch two_ticks"
    by (simp add: two_ticks_def distinct_members_def voice_channels_def example_defs)
  have r: "9 \<in> reminded_coaches reminded_once"
    by (simp add: reminded_once_simps)
  have sent: "reminders_since joined (check_voice_duration 301000000 [guild0 [carl]] joined) =
     [\<lparr>reminder_to = 9, reminder_channel = lit ''Lobby'', reminder_time = 301000000\<rparr>]"
    using reminded_once_simps(3)
    by (simp add: reminders_since_def joined_simps reminded_once_def)
  have five: "five_minutes \<le> 301000000 - 0"
    by (simp add: five_minutes_def)
  from reminder_once_per_epoch_after_five_minutes
         [of two_ticks joined 9 301000000 "[guild0 [carl]]"] w
  have once: "count_list (map reminder_to (reminders_since joined (run joined two_ticks))) 9 \<le> 1"
    by blast
  from reminder_once_per_epoch_after_five_minutes
         [of two_ticks reminded_once 9 301000000 "[guild0 [carl]]"] w r
  have none: "9 \<notin> set (map reminder_to (reminders_since reminded_once (run reminded_once two_ticks)))"
    by blast
  from w r sent five once none joined_simps(1) show ?thesis by blast
qed
















section \<open>Report pages\<close>

lemma limit_value_length: "length (limit_value v) \<le> MAX_FIELD_VALUE_LENGTH"
  by (simp add: limit_value_def MAX_FIELD_VALUE_LENGTH_def lit_def)

lemma add_sessions_inv:
  "add_sessions int_of g seas embeds cur fc data = Some (embeds', cur', fc') \<Longrightarrow>
   fc = length (embed_fields cur) \<Longrightarrow> fc \<le> MAX_FIELDS_PER_EMBED \<Longrightarrow>
   list_all page_ok embeds \<Longrightarrow>
   list_all (\<lambda>f. length (field_value f) \<le> MAX_FIELD_VALUE_LENGTH) (embed_fields cur) \<Longrightarrow>
     fc' = length (embed_fields cur') \<and> fc' \<le> MAX_FIELDS_PER_EMBED \<and>
     (data \<noteq> [] \<longrightarrow> 0 < fc') \<and> (0 < fc \<longrightarrow> 0 < fc') \<and>
     list_all page_ok embeds' \<and>
     list_all (\<lambda>f. length (field_value f) \<le> MAX_FIELD_VALUE_LENGTH) (embed_fields cur') \<and>
     map Some (concat (map embed_fields (embeds' @ [cur'])))
       = map Some (concat (map embed_fields (embeds @ [cur]))) @ map (session_field int_of g) data"
proof (induction data arbitrary: embeds cur fc)
  case Nil
  then show ?case by auto
next
  case (Cons session rest)
  from Cons.prems(1) obtain name v where
    content: "create_session_field_content int_of session g = Some (name, v)"
    by (auto split: option.splits)
  have field: "session_field int_of g session
                 = Some \<lparr>field_name = name, field_value = limit_value v, field_inline = False\<rparr>"
    by (simp add: session_field_def content)
  show ?case
  proof (cases "fc \<ge> MAX_FIELDS_PER_EMBED")
    case True
    let ?cur = "add_field (continued_embed seas) name (limit_value v)"
    from Cons.prems(1) content True
    have run: "add_sessions int_of g seas (embeds @ [cur]) ?cur (Suc 0) rest = Some (embeds', cur', fc')"
      by simp
    have full: "page_ok cur"
      using Cons.prems(2,3,5) True
      by (auto simp: page_ok_def MAX_FIELDS_PER_EMBED_def)
    have a: "Suc 0 = length (embed_fields ?cur)"
      by (simp add: add_field_def continued_embed_def)
    have b: "Suc 0 \<le> MAX_FIELDS_PER_EMBED"
      by (simp add: MAX_FIELDS_PER_EMBED_def)
    have c: "list_all page_ok (embeds @ [cur])"
      using Cons.prems(4) full by simp
    have d: "list_all (\<lambda>f. length (field_value f) \<le> MAX_FIELD_VALUE_LENGTH) (embed_fields ?cur)"
      by (simp add: add_field_def continued_embed_def limit_value_length)
    from Cons.IH [OF run a b c d] show ?thesis
      by (auto simp: field add_field_def continued_embed_def)
  next
    case False
    let ?cur = "add_field cur name (limit_value v)"
    from Cons.prems(1) content False
    have run: "add_sessions int_of g seas embeds ?cur (Suc fc) rest = Some (embeds', cur', fc')"
      by simp
    have a: "Suc fc = length (embed_fields ?cur)"
      using Cons.prems(2) by (simp add: add_field_def)
    have b: "Suc fc \<le> MAX_FIELDS_PER_EMBED"
      using False by simp
    have d: "list_all (\<lambda>f. length (field_value f) \<le> MAX_FIELD_VALUE_LENGTH) (embed_fields ?cur)"
      using Cons.prems(5) by (simp add: add_field_def limit_value_length)
    from Cons.IH [OF run a b Cons.prems(4) d] show ?thesis
      by (auto simp: field add_field_def)
  qed
qed

lemma add_sessions_total:
  "\<forall>session \<in> set data. create_session_field_content int_of session g \<noteq> None \<Longrightarrow>
   add_sessions int_of g seas embeds cur fc data \<noteq> None"
  by (induction data arbitrary: embeds cur fc) auto

lemma set_footers_length [simp]: "length (set_footers es) = length es"
  by (simp add: set_footers_def)

lemma set_footers_nth:
  "i < length es \<Longrightarrow>
   set_footers es ! i = (es ! i)\<lparr>footer := Some (page_footer (Suc i) (length es))\<rparr>"
  by (simp add: set_footers_def nth_enumerate_eq)

lemma set_footers_fields [simp]: "map embed_fields (set_footers es) = map embed_fields es"
  by (rule nth_equalityI) (simp_all add: set_footers_nth)

lemma set_footers_page_ok: "list_all page_ok (set_footers es) = list_all page_ok es"
  by (simp add: list_all_length set_footers_nth page_ok_def)

lemmas report_defs =
  create_report_embeds_def create_session_field_content_def numbered_lines_def
  add_field_def limit_value_def first_embed_def continued_embed_def no_data_embed_def
  set_footers_def page_footer_def session_field_def page_ok_def get_member_def
  MAX_FIELDS_PER_EMBED_def MAX_FIELD_VALUE_LENGTH_def two_digits_def decimal_def
  row0_def report_time_def str_int_def party_popper_def enumerate_eq_zip Let_def

lemma row0_content:
  "create_session_field_content decimal row0 (guild0 []) =
     Some (lit ''Session: Aim on [2025-01-05] for Advanced'',
           lit ''**Absent:**'' @ [newline] @ lit ''1. Alice (Excused)'' @ [newline] @
           lit ''2. Bob (Unexcused)'' @ [newline] @ [newline] @
           lit ''Total Absences: **2** (Excused: 1)'')"
  by (simp add: report_defs example_defs string_defs)

lemma no_data_embed_ok:
  "page_ok (no_data_embed seas granularity generated_at)"
  "footer (no_data_embed seas granularity generated_at) = None"
  by (simp_all add: no_data_embed_def add_field_def first_embed_def page_ok_def lit_def
        MAX_FIELDS_PER_EMBED_def MAX_FIELD_VALUE_LENGTH_def)

lemma create_report_embeds_nonempty_data:
  assumes "data \<noteq> []"
    and "create_report_embeds int_of generated_at data seas granularity g = Some pages"
  shows "pages \<noteq> []" and "list_all page_ok pages"
    and "\<forall>i < length pages. footer (pages ! i) = Some (page_footer (Suc i) (length pages))"
    and "map Some (concat (map embed_fields pages)) = map (session_field int_of g) data"
proof -
  from assms obtain embeds cur fc where
    run: "add_sessions int_of g seas [] (first_embed seas granularity generated_at) 0 data
            = Some (embeds, cur, fc)"
    and pages: "pages = set_footers (if fc > 0 then embeds @ [cur] else embeds)"
    by (auto simp: create_report_embeds_def split: option.splits)
  have inv: "fc = length (embed_fields cur)" "0 < fc" "fc \<le> MAX_FIELDS_PER_EMBED"
    "list_all page_ok embeds"
    "list_all (\<lambda>f. length (field_value f) \<le> MAX_FIELD_VALUE_LENGTH) (embed_fields cur)"
    "map Some (concat (map embed_fields (embeds @ [cur]))) = map (session_field int_of g) data"
  proof -
    have "0 = length (embed_fields (first_embed seas granularity generated_at))"
      "0 \<le> MAX_FIELDS_PER_EMBED" "list_all page_ok []"
      "list_all (\<lambda>f. length (field_value f) \<le> MAX_FIELD_VALUE_LENGTH)
         (embed_fields (first_embed seas granularity generated_at))"
      by (simp_all add: first_embed_def)
    from add_sessions_inv [OF run this] assms(1)
    show "fc = length (embed_fields cur)" "0 < fc" "fc \<le> MAX_FIELDS_PER_EMBED"
      "list_all page_ok embeds"
      "list_all (\<lambda>f. length (field_value f) \<le> MAX_FIELD_VALUE_LENGTH) (embed_fields cur)"
      "map Some (concat (map embed_fields (embeds @ [cur]))) = map (session_field int_of g) data"
      by (auto simp: first_embed_def)
  qed
  have eq: "pages = set_footers (embeds @ [cur])"
    using pages inv(2) by simp
  have last_ok: "page_ok cur"
    using inv(1,2,3,5) by (auto simp: page_ok_def)
  show "pages \<noteq> []"
    using eq by (metis set_footers_length length_0_conv snoc_eq_iff_butlast)
  show "list_all page_ok pages"
    unfolding eq set_footers_page_ok using inv(4) last_ok by simp
  show "\<forall>i < length pages. footer (pages ! i) = Some (page_footer (Suc i) (length pages))"
    unfolding eq by (simp add: set_footers_nth)
  show "map Some (concat (map embed_fields pages)) = map (session_field int_of g) data"
    unfolding eq set_footers_fields using inv(6) .
qed

lemma page_okD:
  "page_ok p \<Longrightarrow>
   embed_fields p \<noteq> [] \<and> length (embed_fields p) \<le> 25 \<and>
   (\<forall>f \<in> set (embed_fields p). length (field_value f) \<le> 1024)"
  by (simp add: page_ok_def list_all_iff MAX_FIELDS_PER_EMBED_def MAX_FIELD_VALUE_LENGTH_def)

text \<open>
  C9 (as amended). Whenever \<open>create_report_embeds\<close> returns, the list of pages is not
  empty, and every page holds between 1 and 25 fields, each value at most 1024 long.
  For data that is not empty the fields of the pages, in order, are the fields of the
  sessions, each value cut to its first 1021 characters and \<open>...\<close> if it was longer than
  1024, and page \<open>i\<close> of \<open>n\<close> has the footer \<open>Page i/n\<close>. For empty data there is exactly
  one page, with the \<open>No Data\<close> field, and that page has no footer. The function returns
  whenever building the field of each session does.
\<close>

theorem create_report_embeds_pages:
  "(\<forall>pages. create_report_embeds int_of generated_at data seas granularity g = Some pages \<longrightarrow>
      pages \<noteq> [] \<and>
      (\<forall>p \<in> set pages. embed_fields p \<noteq> [] \<and> length (embed_fields p) \<le> 25 \<and>
         (\<forall>f \<in> set (embed_fields p). length (field_value f) \<le> 1024)) \<and>
      (data \<noteq> [] \<longrightarrow>
         (\<forall>i < length pages. footer (pages ! i) = Some (page_footer (Suc i) (length pages))) \<and>
         map Some (concat (map embed_fields pages)) = map (session_field int_of g) data) \<and>
      (data = [] \<longrightarrow>
         pages = [no_data_embed seas granularity generated_at] \<and>
         map field_name (embed_fields (hd pages)) = [lit ''No Data''] \<and>
         footer (hd pages) = None)) \<and>
   ((\<forall>session \<in> set data. create_session_field_content int_of session g \<noteq> None) \<longrightarrow>
      create_report_embeds int_of generated_at data seas granularity g \<noteq> None) \<and>
   (\<forall>v. limit_value v = (if length v > 1024 then take 1021 v @ lit ''...'' else v))"
proof -
  have returned: "pages \<noteq> [] \<and>
      (\<forall>p \<in> set pages. embed_fields p \<noteq> [] \<and> length (embed_fields p) \<le> 25 \<and>
         (\<forall>f \<in> set (embed_fields p). length (field_value f) \<le> 1024)) \<and>
      (data \<noteq> [] \<longrightarrow>
         (\<forall>i < length pages. footer (pages ! i) = Some (page_footer (Suc i) (length pages))) \<and>
         map Some (concat (map embed_fields pages)) = map (session_field int_of g) data) \<and>
      (data = [] \<longrightarrow>
         pages = [no_data_embed seas granularity generated_at] \<and>
         map field_name (embed_fields (hd pages)) = [lit ''No Data''] \<and>
         footer (hd pages) = None)"
    if ret: "create_report_embeds int_of generated_at data seas granularity g = Some pages"
    for pages
  proof (cases "data = []")
    case True
    with ret have p: "pages = [no_data_embed seas granularity generated_at]"
      by (auto simp: create_report_embeds_def)
    have "map field_name (embed_fields (hd pages)) = [lit ''No Data'']"
      unfolding p by (simp add: no_data_embed_def add_field_def first_embed_def)
    moreover have "footer (hd pages) = None"
      unfolding p by (simp add: no_data_embed_ok)
    moreover have "\<forall>p \<in> set pages. embed_fields p \<noteq> [] \<and> length (embed_fields p) \<le> 25 \<and>
         (\<forall>f \<in> set (embed_fields p). length (field_value f) \<le> 1024)"
      using page_okD [OF no_data_embed_ok(1) [of seas granularity generated_at]] p by simp
    ultimately show ?thesis using True p by simp
  next
    case False
    note n = create_report_embeds_nonempty_data [OF False ret]
    have "\<forall>p \<in> set pages. embed_fields p \<noteq> [] \<and> length (embed_fields p) \<le> 25 \<and>
         (\<forall>f \<in> set (embed_fields p). length (field_value f) \<le> 1024)"
      using n(2) by (auto simp: list_all_iff dest!: page_okD)
    with n(1,3,4) False show ?thesis by blast
  qed
  have total: "create_report_embeds int_of generated_at data seas granularity g \<noteq> None"
    if "\<forall>session \<in> set data. create_session_field_content int_of session g \<noteq> None"
    using add_sessions_total [OF that, of seas "[]" "first_embed seas granularity generated_at" 0]
    by (auto simp: create_report_embeds_def split: option.splits)
  have cut: "limit_value v = (if length v > 1024 then take 1021 v @ lit ''...'' else v)" for v
    by (simp add: limit_value_def MAX_FIELD_VALUE_LENGTH_def)
  from returned total cut show ?thesis by blast
qed

text \<open>
  C9, the claim as it stands: for empty data the single page is returned before the
  footers are set, so it carries no \<open>i/total\<close> footer.
\<close>

theorem no_data_page_has_no_footer:
  "create_report_embeds decimal report_time [] 1 WEEKLY (guild0 [])
     = Some [no_data_embed 1 WEEKLY report_time] \<and>
   footer (no_data_embed 1 WEEKLY report_time) = None"
  by (simp add: create_report_embeds_def no_data_embed_ok)

lemma limit_row0:
  "limit_value (lit ''**Absent:**'' @ [newline] @ lit ''1. Alice (Excused)'' @ [newline] @
           lit ''2. Bob (Unexcused)'' @ [newline] @ [newline] @
           lit ''Total Absences: **2** (Excused: 1)'') =
   lit ''**Absent:**'' @ [newline] @ lit ''1. Alice (Excused)'' @ [newline] @
           lit ''2. Bob (Unexcused)'' @ [newline] @ [newline] @
           lit ''Total Absences: **2** (Excused: 1)''"
  by (simp add: limit_value_def MAX_FIELD_VALUE_LENGTH_def lit_def)

lemma page_sizes:
  "map_option (map (\<lambda>p. length (embed_fields p)))
     (create_report_embeds decimal report_time (replicate 26 row0) 1 WEEKLY (guild0 [])) = Some [25, 1]"
  by (simp add: create_report_embeds_def row0_content limit_row0 numeral_eq_Suc
        MAX_FIELDS_PER_EMBED_def add_field_def first_embed_def continued_embed_def
        set_footers_def enumerate_eq_zip)

theorem create_report_embeds_pages_witness:
  "list_all (\<lambda>session. create_session_field_content decimal session (guild0 []) \<noteq> None)
     (replicate 26 row0) \<and>
   replicate 26 row0 \<noteq> [] \<and>
   (\<exists>pages. create_report_embeds decimal report_time (replicate 26 row0) 1 WEEKLY (guild0 [])
              = Some pages \<and>
      map (\<lambda>p. length (embed_fields p)) pages = [25, 1] \<and>
      (\<forall>p \<in> set pages. \<forall>f \<in> set (embed_fields p). length (field_value f) \<le> 1024) \<and>
      map footer pages = [Some (lit ''Page 1/2''), Some (lit ''Page 2/2'')]) \<and>
   create_report_embeds decimal report_time [] 1 WEEKLY (guild0 [])
     = Some [no_data_embed 1 WEEKLY report_time] \<and>
   length (limit_value (replicate 2000 65)) = 1024"
proof -
  note pages_thm = create_report_embeds_pages
  have content: "\<forall>session \<in> set (replicate 26 row0).
      create_session_field_content decimal session (guild0 []) \<noteq> None"
    by (simp add: row0_content)
  have ne: "replicate 26 row0 \<noteq> []" by simp
  from pages_thm [of decimal report_time "replicate 26 row0" 1 WEEKLY "guild0 []"] content
  obtain pages where
    pages: "create_report_embeds decimal report_time (replicate 26 row0) 1 WEEKLY (guild0 []) = Some pages"
    by blast
  from pages_thm [of decimal report_time "replicate 26 row0" 1 WEEKLY "guild0 []"] pages ne
  have props: "\<forall>p \<in> set pages. \<forall>f \<in> set (embed_fields p). length (field_value f) \<le> 1024"
    "\<forall>i < length pages. footer (pages ! i) = Some (page_footer (Suc i) (length pages))"
    by blast+
  have sizes: "map (\<lambda>p. length (embed_fields p)) pages = [25, 1]"
    using page_sizes pages by simp
  then have len: "length pages = 2"
    by (metis length_map length_Cons list.size(3) numeral_2_eq_2)
  then obtain p1 p2 where p: "pages = [p1, p2]"
    by (metis (no_types) length_0_conv length_Suc_conv numeral_2_eq_2)
  have "footer (pages ! 0) = Some (page_footer 1 2)" "footer (pages ! 1) = Some (page_footer 2 2)"
    using props(2) len by (simp_all add: numeral_2_eq_2)
  then have footers: "map footer pages = [Some (lit ''Page 1/2''), Some (lit ''Page 2/2'')]"
    unfolding p by (simp add: page_footer_def lit_def)
  obtain q where empty: "create_report_embeds decimal report_time [] 1 WEEKLY (guild0 []) = Some q"
    using pages_thm [of decimal report_time "[]" 1 WEEKLY "guild0 []"] by auto
  with pages_thm [of decimal report_time "[]" 1 WEEKLY "guild0 []"]
  have q: "q = [no_data_embed 1 WEEKLY report_time]" by blast
  have cut: "length (limit_value (replicate 2000 65)) = 1024"
    using pages_thm [of decimal report_time "[]" 1 WEEKLY "guild0 []"]
    by (simp add: lit_def)
  have nodata: "create_report_embeds decimal report_time [] 1 WEEKLY (guild0 [])
                  = Some [no_data_embed 1 WEEKLY report_time]"
    using empty q by simp
  have paged: "\<exists>pages. create_report_embeds decimal report_time (replicate 26 row0) 1 WEEKLY (guild0 [])
              = Some pages \<and>
      map (\<lambda>p. length (embed_fields p)) pages = [25, 1] \<and>
      (\<forall>p \<in> set pages. \<forall>f \<in> set (embed_fields p). length (field_value f) \<le> 1024) \<and>
      map footer pages = [Some (lit ''Page 1/2''), Some (lit ''Page 2/2'')]"
    using pages sizes props(1) footers by (intro exI [of _ pages] conjI)
  have content': "list_all (\<lambda>session. create_session_field_content decimal session (guild0 []) \<noteq> None)
     (replicate 26 row0)"
    using content by (simp add: list_all_iff)
  from content' ne paged nodata cut show ?thesis by (intro conjI)
qed

section \<open>User synchronisation\<close>

lemma sync_members_Inl:
  "sync_members f k c a u ms = Inl c' \<Longrightarrow> durable c' = durable c"
  by (induction ms arbitrary: k c a u)
     (auto simp: execute_update_def execute_insert_def split: option.splits if_splits)

lemma sync_members_Inr:
  "sync_members f k c a u ms = Inr (c', a', u') \<Longrightarrow>
     durable c' = durable c \<and>
     working c' = (working c)\<lparr>user_table := synced_table (user_table (working c)) ms\<rparr> \<and>
     a' = a + synced_added (user_table (working c)) ms"
proof (induction ms arbitrary: k c a u)
  case Nil
  then show ?case by simp
next
  case (Cons m ms)
  show ?case
  proof (cases "user_values m")
    case None
    with Cons.prems have "sync_members f k c a u ms = Inr (c', a', u')" by simp
    from Cons.IH [OF this] None show ?thesis by simp
  next
    case (Some tsg)
    obtain t sg where tsg: "tsg = (t, sg)" by (cases tsg)
    show ?thesis
    proof (cases "user_exists c (str_int (member_id m))")
      case True
      let ?c1 = "execute_update (display_name m) t sg (str_int (member_id m)) c"
      from Cons.prems Some tsg True
      have "sync_members f (Suc (Suc k)) ?c1 a (Suc u) ms = Inr (c', a', u')"
        by (auto split: if_splits)
      from Cons.IH [OF this] Some tsg True show ?thesis
        by (simp add: execute_update_def user_exists_def)
    next
      case False
      let ?c1 = "execute_insert (display_name m) t sg (str_int (member_id m)) c"
      from Cons.prems Some tsg False
      have "sync_members f (Suc (Suc k)) ?c1 (Suc a) u ms = Inr (c', a', u')"
        by (auto split: if_splits)
      from Cons.IH [OF this] Some tsg False show ?thesis
        by (simp add: execute_insert_def user_exists_def)
    qed
  qed
qed

lemma sync_members_NoFault: "sync_members NoFault k c a u ms \<noteq> Inl c'"
  by (induction ms arbitrary: k c a u) (auto split: option.splits)

lemma sync_users_True:
  "sync_users f st ms = (Returns (True, a, u), st') \<Longrightarrow>
     st' = st\<lparr>user_table := synced_table (user_table st) ms\<rparr> \<and>
     a = synced_added (user_table st) ms"
  unfolding sync_users_def Let_def
  by (auto simp: connect_def close_def commit_def
        split: if_splits sum.splits prod.splits dest!: sync_members_Inr)

lemma sync_users_other:
  "sync_users f st ms = (r, st') \<Longrightarrow> \<forall>a u. r \<noteq> Returns (True, a, u) \<Longrightarrow>
     st' = st \<and> (r = Raises \<or> r = Returns (False, 0, 0))"
  unfolding sync_users_def Let_def
  by (auto simp: connect_def close_def
        split: if_splits sum.splits prod.splits dest!: sync_members_Inr sync_members_Inl)

lemma sync_users_NoFault:
  "\<exists>a u st'. sync_users NoFault st ms = (Returns (True, a, u), st')"
  unfolding sync_users_def Let_def
  by (auto simp: sync_members_NoFault split: sum.splits prod.splits)

lemma update_user_row:
  "discord_id r = did \<Longrightarrow>
   update_user name t sg did r =
     \<lparr>user_name = name, discord_id = did, user_type = t, user_skill_group = sg, is_active = 1\<rparr>"
  by (cases r) (simp add: update_user_def)

lemma update_user_other: "discord_id r \<noteq> did \<Longrightarrow> update_user name t sg did r = r"
  by (simp add: update_user_def)

lemma update_user_id [simp]: "discord_id (update_user name t sg did r) = discord_id r"
  by (simp add: update_user_def)

lemma settled_row_id [simp]: "discord_id (settled_row ms r) = discord_id r"
  by (induction ms arbitrary: r) (auto split: option.splits)

lemma settled_row_append:
  "settled_row (xs @ ys) r = settled_row ys (settled_row xs r)"
  by (induction xs arbitrary: r) (auto split: option.splits)

lemma synced_table_append:
  "synced_table T (xs @ ys) = synced_table (synced_table T xs) ys"
  by (induction xs arbitrary: T) (auto split: option.splits)

lemma synced_table_ids:
  "set (map discord_id T) \<subseteq> set (map discord_id (synced_table T ms))"
proof (induction ms arbitrary: T)
  case Nil
  show ?case by simp
next
  case (Cons m ms)
  show ?case
  proof (cases "user_values m")
    case None
    with Cons.IH [of T] show ?thesis by simp
  next
    case (Some tsg)
    obtain t sg where tsg: "tsg = (t, sg)" by (cases tsg)
    let ?did = "str_int (member_id m)"
    show ?thesis
    proof (cases "list_ex (\<lambda>r. discord_id r = ?did) T")
      case True
      have "set (map discord_id (map (update_user (display_name m) t sg ?did) T))
              = set (map discord_id T)" by (simp add: comp_def)
      with Cons.IH [of "map (update_user (display_name m) t sg ?did) T"] Some tsg True
      show ?thesis by simp
    next
      case False
      with Cons.IH [of "T @ [\<lparr>user_name = display_name m, discord_id = ?did,
                        user_type = t, user_skill_group = sg, is_active = 1\<rparr>]"] Some tsg
      show ?thesis by auto
    qed
  qed
qed

lemma synced_table_has_member:
  "m \<in> set ms \<Longrightarrow> user_values m \<noteq> None \<Longrightarrow>
   str_int (member_id m) \<in> set (map discord_id (synced_table T ms))"
proof (induction ms arbitrary: T)
  case Nil
  then show ?case by simp
next
  case (Cons x ms)
  show ?case
  proof (cases "m = x")
    case True
    from Cons.prems(2) obtain t sg where v: "user_values x = Some (t, sg)"
      using True by auto
    let ?did = "str_int (member_id x)"
    show ?thesis
    proof (cases "list_ex (\<lambda>r. discord_id r = ?did) T")
      case ex: True
      then have "?did \<in> set (map discord_id (map (update_user (display_name x) t sg ?did) T))"
        by (force simp: list_ex_iff comp_def)
      with synced_table_ids [of "map (update_user (display_name x) t sg ?did) T" ms] v ex True
      show ?thesis by auto
    next
      case False
      let ?T1 = "T @ [\<lparr>user_name = display_name x, discord_id = ?did,
                        user_type = t, user_skill_group = sg, is_active = 1\<rparr>]"
      have "?did \<in> set (map discord_id ?T1)" by simp
      with synced_table_ids [of ?T1 ms] v False True
      show ?thesis by auto
    qed
  next
    case False
    with Cons.prems have "m \<in> set ms" by simp
    from Cons.IH [OF this Cons.prems(2)] show ?thesis
      by (auto split: option.splits)
  qed
qed

lemma synced_table_known:
  "\<forall>m \<in> set ms. user_values m \<noteq> None \<longrightarrow> str_int (member_id m) \<in> set (map discord_id T) \<Longrightarrow>
   synced_table T ms = map (settled_row ms) T \<and> synced_added T ms = 0"
proof (induction ms arbitrary: T)
  case Nil
  show ?case by simp
next
  case (Cons m ms)
  show ?case
  proof (cases "user_values m")
    case None
    with Cons.IH [of T] Cons.prems show ?thesis by simp
  next
    case (Some tsg)
    obtain t sg where tsg: "tsg = (t, sg)" by (cases tsg)
    let ?did = "str_int (member_id m)"
    let ?T1 = "map (update_user (display_name m) t sg ?did) T"
    from Cons.prems Some have ex: "list_ex (\<lambda>r. discord_id r = ?did) T"
      by (force simp: list_ex_iff)
    have ids: "set (map discord_id ?T1) = set (map discord_id T)"
      by (simp add: comp_def)
    have "\<forall>m \<in> set ms. user_values m \<noteq> None \<longrightarrow> str_int (member_id m) \<in> set (map discord_id ?T1)"
      unfolding ids using Cons.prems by simp
    from Cons.IH [OF this] Some tsg ex show ?thesis
      by (simp add: comp_def)
  qed
qed

lemma synced_table_settled:
  "\<forall>r \<in> set (synced_table T ms). settled_row ms r = r"
proof (induction ms arbitrary: T rule: rev_induct)
  case Nil
  show ?case by simp
next
  case (snoc m ms)
  let ?T1 = "synced_table T ms"
  note IH = snoc.IH [of T]
  show ?case
  proof (cases "user_values m")
    case None
    with IH show ?thesis
      by (simp add: synced_table_append settled_row_append)
  next
    case (Some tsg)
    obtain t sg where tsg: "tsg = (t, sg)" by (cases tsg)
    let ?did = "str_int (member_id m)"
    let ?R = "\<lparr>user_name = display_name m, discord_id = ?did, user_type = t,
               user_skill_group = sg, is_active = 1\<rparr>"
    have fixed: "settled_row (ms @ [m]) r = r"
      if "r = ?R \<or> (r \<in> set ?T1 \<and> discord_id r \<noteq> ?did)" for r
    proof -
      have step: "settled_row (ms @ [m]) r
                    = update_user (display_name m) t sg ?did (settled_row ms r)"
        using Some tsg by (simp add: settled_row_append)
      from that show ?thesis
      proof
        assume "r = ?R"
        then have "discord_id (settled_row ms r) = ?did" by simp
        from update_user_row [OF this] step \<open>r = ?R\<close> show ?thesis by simp
      next
        assume "r \<in> set ?T1 \<and> discord_id r \<noteq> ?did"
        with IH step show ?thesis by (simp add: update_user_other)
      qed
    qed
    show ?thesis
    proof (cases "list_ex (\<lambda>r. discord_id r = ?did) ?T1")
      case True
      have final: "synced_table T (ms @ [m]) = map (update_user (display_name m) t sg ?did) ?T1"
        using Some tsg True by (simp add: synced_table_append)
      show ?thesis
        unfolding final
      proof
        fix r' assume "r' \<in> set (map (update_user (display_name m) t sg ?did) ?T1)"
        then obtain r where r: "r \<in> set ?T1" "r' = update_user (display_name m) t sg ?did r"
          by auto
        show "settled_row (ms @ [m]) r' = r'"
        proof (cases "discord_id r = ?did")
          case True
          with r(2) update_user_row [OF True] have "r' = ?R" by simp
          with fixed show ?thesis by blast
        next
          case False
          with r have "r' = r" by (simp add: update_user_other)
          with fixed r(1) False show ?thesis by blast
        qed
      qed
    next
      case False
      have final: "synced_table T (ms @ [m]) = ?T1 @ [?R]"
        using Some tsg False by (simp add: synced_table_append)
      show ?thesis
        unfolding final
      proof
        fix r assume "r \<in> set (?T1 @ [?R])"
        then consider "r = ?R" | "r \<in> set ?T1" by auto
        then show "settled_row (ms @ [m]) r = r"
        proof cases
          case 1
          with fixed show ?thesis by blast
        next
          case 2
          with False have "discord_id r \<noteq> ?did" by (auto simp: list_ex_iff)
          with fixed 2 show ?thesis by blast
        qed
      qed
    qed
  qed
qed

lemma synced_table_idem:
  "synced_table (synced_table T ms) ms = synced_table T ms"
  "synced_added (synced_table T ms) ms = 0"
proof -
  have known: "\<forall>m \<in> set ms. user_values m \<noteq> None \<longrightarrow>
                 str_int (member_id m) \<in> set (map discord_id (synced_table T ms))"
    using synced_table_has_member by blast
  from synced_table_known [OF known]
  have a: "synced_table (synced_table T ms) ms = map (settled_row ms) (synced_table T ms)"
    and b: "synced_added (synced_table T ms) ms = 0" by simp_all
  have "map (settled_row ms) (synced_table T ms) = synced_table T ms"
    using synced_table_settled [of T ms] by (simp add: map_idI)
  with a show "synced_table (synced_table T ms) ms = synced_table T ms" by simp
  from b show "synced_added (synced_table T ms) ms = 0" .
qed

text \<open>
  C10. After a run of \<open>sync_users\<close> that succeeded, a second run over the same members
  leaves the store as the first run left it, so that every user row keeps its name, user
  type, skill group and active flag; whatever it returns, it reports no user added; and
  if nothing fails it returns success with zero users added.
\<close>

theorem sync_users_twice:
  "sync_users f1 st members = (Returns (True, a1, u1), st1) \<longrightarrow>
     snd (sync_users f2 st1 members) = st1 \<and>
     (\<forall>ok a u. fst (sync_users f2 st1 members) = Returns (ok, a, u) \<longrightarrow> a = 0) \<and>
     (f2 = NoFault \<longrightarrow> (\<exists>u. fst (sync_users f2 st1 members) = Returns (True, 0, u)))"
proof
  assume first: "sync_users f1 st members = (Returns (True, a1, u1), st1)"
  from sync_users_True [OF first]
  have st1: "st1 = st\<lparr>user_table := synced_table (user_table st) members\<rparr>" by simp
  obtain r st2 where second: "sync_users f2 st1 members = (r, st2)"
    by (cases "sync_users f2 st1 members")
  have same: "st2 = st1" and added: "\<forall>ok a u. r = Returns (ok, a, u) \<longrightarrow> a = 0"
  proof -
    show "st2 = st1"
    proof (cases "\<exists>a u. r = Returns (True, a, u)")
      case True
      then obtain a u where r: "r = Returns (True, a, u)" by blast
      from sync_users_True [OF second [unfolded r]]
      show ?thesis by (simp add: st1 synced_table_idem)
    next
      case False
      with sync_users_other [OF second] show ?thesis by blast
    qed
    show "\<forall>ok a u. r = Returns (ok, a, u) \<longrightarrow> a = 0"
    proof (intro allI impI)
      fix ok a u assume r: "r = Returns (ok, a, u)"
      show "a = 0"
      proof (cases ok)
        case True
        with second r have "sync_users f2 st1 members = (Returns (True, a, u), st2)" by simp
        from sync_users_True [OF this]
        show ?thesis by (simp add: st1 synced_table_idem)
      next
        case False
        with sync_users_other [OF second] r show ?thesis by auto
      qed
    qed
  qed
  have ok: "\<exists>u. r = Returns (True, 0, u)" if "f2 = NoFault"
  proof -
    from sync_users_NoFault [of st1 members] second that
    obtain a u where "r = Returns (True, a, u)" by auto
    with added show ?thesis by blast
  qed
  have fst_snd: "fst (sync_users f2 st1 members) = r" "snd (sync_users f2 st1 members) = st2"
    using second by simp_all
  from same added ok
  show "snd (sync_users f2 st1 members) = st1 \<and>
     (\<forall>ok a u. fst (sync_users f2 st1 members) = Returns (ok, a, u) \<longrightarrow> a = 0) \<and>
     (f2 = NoFault \<longrightarrow> (\<exists>u. fst (sync_users f2 st1 members) = Returns (True, 0, u)))"
    unfolding fst_snd by blast
qed

lemma user_values_examples:
  "user_values alice = None"
  "user_values carl = Some (''coach'', None)"
  "user_values dave = Some (''student'', Some ''Mechanics'')"
  by (simp_all add: user_values_def priority_def USER_ROLE_TYPES_def SKILL_GROUPS_def
        ROLE_PRIORITY_def alice_def carl_def dave_def)

lemma first_sync_eq:
  "first_sync =
     (Returns (True, 2, 0),
      store0\<lparr>user_table :=
        [\<lparr>user_name = lit ''Carl'', discord_id = lit ''9'', user_type = ''coach'',
          user_skill_group = None, is_active = 1\<rparr>,
         \<lparr>user_name = lit ''Dave'', discord_id = lit ''4'', user_type = ''student'',
          user_skill_group = Some ''Mechanics'', is_active = 1\<rparr>]\<rparr>)"
  unfolding first_sync_def
  by (simp add: sync_users_def user_values_examples user_exists_def execute_insert_def
        connect_def commit_def close_def Let_def store0_def)
     (simp add: carl_def dave_def str_int_def lit_def)

theorem sync_users_twice_witness:
  "first_sync = (Returns (True, 2, 0), snd first_sync) \<and>
   map user_type (user_table (snd first_sync)) = [''coach'', ''student''] \<and>
   snd (sync_users NoFault (snd first_sync) [alice, carl, dave]) = snd first_sync \<and>
   (\<exists>u. fst (sync_users NoFault (snd first_sync) [alice, carl, dave]) = Returns (True, 0, u)) \<and>
   snd (sync_users (ExecuteFails 1) (snd first_sync) [alice, carl, dave]) = snd first_sync"
proof -
  have first: "sync_users NoFault store0 [alice, carl, dave] = (Returns (True, 2, 0), snd first_sync)"
    using first_sync_eq by (simp add: first_sync_def)
  have rows: "map user_type (user_table (snd first_sync)) = [''coach'', ''student'']"
    by (simp add: first_sync_eq)
  note again = sync_users_twice [of NoFault store0 "[alice, carl, dave]" 2 0 "snd first_sync" NoFault]
  note failing = sync_users_twice [of NoFault store0 "[alice, carl, dave]" 2 0 "snd first_sync" "ExecuteFails 1"]
  from again first
  have a: "snd (sync_users NoFault (snd first_sync) [alice, carl, dave]) = snd first_sync"
    and b: "\<exists>u. fst (sync_users NoFault (snd first_sync) [alice, carl, dave]) = Returns (True, 0, u)"
    by blast+
  from failing first
  have c: "snd (sync_users (ExecuteFails 1) (snd first_sync) [alice, carl, dave]) = snd first_sync"
    by blast
  have d: "first_sync = (Returns (True, 2, 0), snd first_sync)"
    using first by (simp add: first_sync_def)
  from d rows a b c show ?thesis by (intro conjI)
qed

end
